theory Spec2Isabelle
  imports Main "HOL-Library.Word" "HOL-Library.AList"
begin

unbundle bit_operations_syntax

section \<open>The file record and its ordering\<close>

text \<open>
  A Go \<open>map[string]T\<close> is an association list whose keys are pairwise distinct
  (see \<open>wf_map\<close> below). The order of the list is the order in which one \<open>range\<close> loop
  visits the entries; Go leaves that order open, and so every statement below is
  made for every order. \<open>m[k] = v\<close> is \<open>AList.update k v m\<close>, the two-valued read
  \<open>v, ok := m[k]\<close> is \<open>map_of m k\<close>, and \<open>len(m)\<close> is \<open>length m\<close>.
\<close>

type_synonym 'v gomap = "(string \<times> 'v) list"

text \<open>
  \<open>Block\<close> is used by \<open>fileFromFileInfo\<close> with the fields \<open>Offset\<close> (added to a
  \<open>uint64\<close>), \<open>Length\<close> (a \<open>uint32\<close> as in \<open>protocol.BlockInfo\<close>) and \<open>Hash\<close>.
\<close>

record Block =
  Offset :: "64 word"
  Length :: "32 word"
  Hash :: "8 word list"

text \<open>
  \<open>File\<close> of the model package. \<open>Modified\<close> is an \<open>int64\<close> that the model only copies
  and compares, so it is an \<open>int\<close> here; \<open>Version\<close> is incremented and \<open>Flags\<close> is
  masked, so both are 32-bit words.
\<close>

record File =
  Name :: string
  Flags :: "32 word"
  Modified :: int
  Version :: "32 word"
  Blocks :: "Block list"

text \<open>\<open>protocol.BlockInfo\<close> and \<open>protocol.FileInfo\<close>; the field names carry a prefix
  because they coincide with those of \<open>Block\<close> and \<open>File\<close>.\<close>

record BlockInfo =
  bi_Length :: "32 word"
  bi_Hash :: "8 word list"

record FileInfo =
  fi_Name :: string
  fi_Flags :: "32 word"
  fi_Modified :: int
  fi_Version :: "32 word"
  fi_Blocks :: "BlockInfo list"

definition FlagDeleted :: "32 word" where
  "FlagDeleted = push_bit 12 1"

definition FlagInvalid :: "32 word" where
  "FlagInvalid = push_bit 13 1"

definition FlagDirectory :: "32 word" where
  "FlagDirectory = push_bit 14 1"

definition Equals :: "File \<Rightarrow> File \<Rightarrow> bool" where
  "Equals f o' \<longleftrightarrow> Modified f = Modified o' \<and> Version f = Version o'"

definition NewerThan :: "File \<Rightarrow> File \<Rightarrow> bool" where
  "NewerThan f o' \<longleftrightarrow>
     Modified f > Modified o' \<or> (Modified f = Modified o' \<and> Version f > Version o')"

text \<open>The zero value of \<open>File\<close>, which the one-valued read \<open>m[k]\<close> yields for an absent key.\<close>

definition zeroFile :: File where
  "zeroFile = \<lparr>Name = [], Flags = 0, Modified = 0, Version = 0, Blocks = []\<rparr>"

definition lookup0 :: "File gomap \<Rightarrow> string \<Rightarrow> File" where
  "lookup0 m k = (case map_of m k of None \<Rightarrow> zeroFile | Some f \<Rightarrow> f)"

section \<open>The model state\<close>

text \<open>
  The fields of \<open>Model\<close> that the index operations read or write. The connection
  tables, the trace switches and the locks are left out: no operation below depends
  on them. Clock readings are nanoseconds since the epoch; \<open>Unix\<close> is
  \<open>time.Time.Unix\<close>.
\<close>

record Model =
  dir :: string
  global :: "File gomap"
  local :: "File gomap"
  remote :: "(File gomap) gomap"
  need :: "bool gomap"
  updatedLocal :: int
  updateGlobal :: int
  lastIdxBcastRequest :: int
  delete :: bool

definition Unix :: "int \<Rightarrow> int" where
  "Unix t = t div 1000000000"

text \<open>\<open>NewModel\<close> leaves \<open>lastIdxBcastRequest\<close> at the zero \<open>time.Time\<close>, the first
  instant of year 1: 62135596800 seconds before the epoch.\<close>

definition NewModel :: "string \<Rightarrow> Model" where
  "NewModel d = \<lparr>dir = d, global = [], local = [], remote = [], need = [],
     updatedLocal = 0, updateGlobal = 0, lastIdxBcastRequest = - 62135596800000000000,
     delete = False\<rparr>"

text \<open>\<open>Generation\<close> adds two \<open>int64\<close> values; the sum wraps to 64 bits.\<close>

definition int64 :: "int \<Rightarrow> int" where
  "int64 x = (x + 2 ^ 63) mod 2 ^ 64 - 2 ^ 63"

definition Generation :: "Model \<Rightarrow> int" where
  "Generation m = int64 (updatedLocal m + updateGlobal m)"

text \<open>The representation invariant: every list that stands for a Go map has distinct keys.\<close>

definition wf_map :: "'v gomap \<Rightarrow> bool" where
  "wf_map m \<longleftrightarrow> distinct (map fst m)"

definition wf_model :: "Model \<Rightarrow> bool" where
  "wf_model m \<longleftrightarrow> wf_map (global m) \<and> wf_map (local m) \<and> wf_map (remote m) \<and>
     list_all (\<lambda>(p, fs). wf_map fs) (remote m) \<and> wf_map (need m)"

section \<open>Conversion between protocol and model records\<close>

text \<open>The loop of \<open>fileFromFileInfo\<close>; the state is \<open>(blocks, offset)\<close>.\<close>

definition fromInfoStep :: "BlockInfo \<Rightarrow> Block list \<times> 64 word \<Rightarrow> Block list \<times> 64 word" where
  "fromInfoStep b acc = (case acc of (blocks, offset) \<Rightarrow>
     (blocks @ [\<lparr>Offset = offset, Length = bi_Length b, Hash = bi_Hash b\<rparr>],
      offset + ucast (bi_Length b)))"

definition fileFromFileInfo :: "FileInfo \<Rightarrow> File" where
  "fileFromFileInfo f =
     \<lparr>Name = fi_Name f, Flags = fi_Flags f, Modified = fi_Modified f,
      Version = fi_Version f, Blocks = fst (fold fromInfoStep (fi_Blocks f) ([], 0))\<rparr>"

definition fileInfoFromFile :: "File \<Rightarrow> FileInfo" where
  "fileInfoFromFile f =
     \<lparr>fi_Name = Name f, fi_Flags = Flags f, fi_Modified = Modified f,
      fi_Version = Version f,
      fi_Blocks = fold (\<lambda>b blocks. blocks @ [\<lparr>bi_Length = Length b, bi_Hash = Hash b\<rparr>])
                    (Blocks f) []\<rparr>"

text \<open>Block offsets that are the prefix sums of the block lengths, starting from \<open>acc\<close>.\<close>

fun prefixSumsFrom :: "nat \<Rightarrow> Block list \<Rightarrow> bool" where
  "prefixSumsFrom acc [] = True"
| "prefixSumsFrom acc (b # bs) =
     (unat (Offset b) = acc \<and> prefixSumsFrom (acc + unat (Length b)) bs)"

section \<open>Recomputation of global and need\<close>

text \<open>The first loop of \<open>recomputeGlobal\<close>: copy \<open>local\<close> into the new map.\<close>

definition seedGlobal :: "File gomap \<Rightarrow> File gomap" where
  "seedGlobal loc = fold (\<lambda>(n, f) newGlobal. AList.update n f newGlobal) loc []"

text \<open>The body of the inner loop over one remote index.\<close>

definition mergeEntry :: "string \<times> File \<Rightarrow> File gomap \<Rightarrow> File gomap" where
  "mergeEntry e newGlobal = (case e of (n, nf) \<Rightarrow>
     (case map_of newGlobal n of
        None \<Rightarrow> AList.update n nf newGlobal
      | Some lf \<Rightarrow> if NewerThan nf lf then AList.update n nf newGlobal else newGlobal))"

definition mergeRemotes :: "(File gomap) gomap \<Rightarrow> File gomap \<Rightarrow> File gomap" where
  "mergeRemotes rem newGlobal = fold (\<lambda>(p, fs) g. fold mergeEntry fs g) rem newGlobal"

definition buildGlobal :: "Model \<Rightarrow> File gomap" where
  "buildGlobal m = mergeRemotes (remote m) (seedGlobal (local m))"

text \<open>The comparison of the new map with the published one.\<close>

definition globalUpdated :: "File gomap \<Rightarrow> File gomap \<Rightarrow> bool" where
  "globalUpdated newGlobal old \<longleftrightarrow>
     length newGlobal \<noteq> length old \<or>
     list_ex (\<lambda>(n, f0). case map_of old n of None \<Rightarrow> True | Some f1 \<Rightarrow> \<not> Equals f0 f1)
       newGlobal"

definition recomputeGlobal :: "int \<Rightarrow> Model \<Rightarrow> Model" where
  "recomputeGlobal now m =
     (let newGlobal = buildGlobal m in
      if globalUpdated newGlobal (global m)
      then m\<lparr>updateGlobal := Unix now, global := newGlobal\<rparr>
      else m)"

text \<open>The body of the loop of \<open>recomputeNeed\<close>: does the entry \<open>(n, gf)\<close> of \<open>global\<close> enter
  \<open>need\<close>? The three \<open>continue\<close> statements are the three \<open>False\<close> branches.\<close>

definition needs :: "Model \<Rightarrow> string \<Rightarrow> File \<Rightarrow> bool" where
  "needs m n gf =
     (let ok = (map_of (local m) n \<noteq> None); lf = lookup0 (local m) n in
      if \<not> ok \<or> NewerThan gf lf then
        if Flags gf AND FlagInvalid \<noteq> 0 then False
        else if Flags gf AND FlagDeleted \<noteq> 0 \<and> \<not> delete m then False
        else if Flags gf AND FlagDeleted \<noteq> 0 \<and> \<not> ok then False
        else True
      else False)"

definition recomputeNeed :: "Model \<Rightarrow> Model" where
  "recomputeNeed m =
     m\<lparr>need := fold (\<lambda>(n, gf) nd. if needs m n gf then AList.update n True nd else nd)
                 (global m) []\<rparr>"

section \<open>Operations on the local index\<close>

text \<open>\<open>markDeletedLocals\<close>: the loop state is \<open>(updated, newLocal)\<close>; the result is the
  returned flag together with the map that the caller passed in, as mutated.\<close>

definition tombstone :: "File \<Rightarrow> File" where
  "tombstone f = f\<lparr>Flags := FlagDeleted, Version := Version f + 1, Blocks := []\<rparr>"

definition markStep :: "File gomap \<Rightarrow> string \<times> File \<Rightarrow> bool \<times> File gomap \<Rightarrow> bool \<times> File gomap" where
  "markStep glob e acc = (case (e, acc) of ((n, f), (updated, newLocal)) \<Rightarrow>
     if map_of newLocal n = None then
       if \<not> NewerThan (lookup0 glob n) f then
         if Flags f AND FlagDeleted = 0
         then (True, AList.update n (tombstone f) newLocal)
         else (updated, AList.update n f newLocal)
       else (updated, newLocal)
     else (updated, newLocal))"

definition markDeletedLocals :: "Model \<Rightarrow> File gomap \<Rightarrow> bool \<times> File gomap" where
  "markDeletedLocals m newLocal = fold (markStep (global m)) (local m) (False, newLocal)"

text \<open>The first loop of \<open>ReplaceLocal\<close>, again on \<open>(updated, newLocal)\<close>.\<close>

definition replaceStep :: "File gomap \<Rightarrow> File \<Rightarrow> bool \<times> File gomap \<Rightarrow> bool \<times> File gomap" where
  "replaceStep loc f acc = (case acc of (updated, newLocal) \<Rightarrow>
     (updated \<or> \<not> Equals (lookup0 loc (Name f)) f, AList.update (Name f) f newLocal))"

text \<open>The value of \<open>updated\<close> and of \<open>newLocal\<close> when \<open>ReplaceLocal\<close> reaches \<open>if updated\<close>.\<close>

definition replaceScan :: "File list \<Rightarrow> Model \<Rightarrow> bool \<times> File gomap" where
  "replaceScan fs m =
     (case fold (replaceStep (local m)) fs (False, []) of (u1, l1) \<Rightarrow>
      case markDeletedLocals m l1 of (u2, newLocal) \<Rightarrow>
        (u1 \<or> u2 \<or> length newLocal \<noteq> length (local m), newLocal))"

definition ReplaceLocal :: "int \<Rightarrow> File list \<Rightarrow> Model \<Rightarrow> Model" where
  "ReplaceLocal now fs m =
     (case replaceScan fs m of (updated, newLocal) \<Rightarrow>
      if updated
      then (recomputeNeed (recomputeGlobal now (m\<lparr>local := newLocal\<rparr>)))
             \<lparr>updatedLocal := Unix now, lastIdxBcastRequest := now\<rparr>
      else m)"

definition updateLocal :: "int \<Rightarrow> File \<Rightarrow> Model \<Rightarrow> Model" where
  "updateLocal now f m =
     (let ok = (map_of (local m) (Name f) \<noteq> None); ef = lookup0 (local m) (Name f) in
      if \<not> ok \<or> \<not> Equals ef f
      then (recomputeNeed (recomputeGlobal now (m\<lparr>local := AList.update (Name f) f (local m)\<rparr>)))
             \<lparr>updatedLocal := Unix now, lastIdxBcastRequest := now\<rparr>
      else m)"

definition SeedLocal :: "int \<Rightarrow> FileInfo list \<Rightarrow> Model \<Rightarrow> Model" where
  "SeedLocal now fs m =
     recomputeNeed (recomputeGlobal now
       (m\<lparr>local := fold (\<lambda>f l. AList.update (fi_Name f) (fileFromFileInfo f) l) fs []\<rparr>))"

section \<open>Operations called by the protocol layer\<close>

text \<open>The map that \<open>Index\<close> builds from the received list.\<close>

definition indexMap :: "FileInfo list \<Rightarrow> File gomap" where
  "indexMap fs = fold (\<lambda>f r. AList.update (fi_Name f) (fileFromFileInfo f) r) fs []"

definition Index :: "int \<Rightarrow> string \<Rightarrow> FileInfo list \<Rightarrow> Model \<Rightarrow> Model" where
  "Index now nodeID fs m =
     recomputeNeed (recomputeGlobal now
       (m\<lparr>remote := AList.update nodeID (indexMap fs) (remote m)\<rparr>))"

definition IndexUpdate :: "int \<Rightarrow> string \<Rightarrow> FileInfo list \<Rightarrow> Model \<Rightarrow> Model" where
  "IndexUpdate now nodeID fs m =
     (case map_of (remote m) nodeID of
        None \<Rightarrow> m
      | Some repo \<Rightarrow>
          recomputeNeed (recomputeGlobal now
            (m\<lparr>remote := AList.update nodeID
                 (fold (\<lambda>f r. AList.update (fi_Name f) (fileFromFileInfo f) r) fs repo)
                 (remote m)\<rparr>)))"

definition Close :: "int \<Rightarrow> string \<Rightarrow> Model \<Rightarrow> Model" where
  "Close now node m =
     recomputeNeed (recomputeGlobal now (m\<lparr>remote := AList.delete node (remote m)\<rparr>))"

text \<open>
  \<open>Request\<close> returns \<open>(nil, err)\<close> or \<open>(buf, nil)\<close>: a sum, with the error on the left.
  Joining the path, opening the file and reading \<open>size\<close> bytes at \<open>offset\<close> are the
  parameter \<open>readAt\<close>, which stands for the disk.
\<close>

datatype error = ErrNoSuchFile | ErrInvalid | ErrOS string

definition Request ::
  "(string \<Rightarrow> string \<Rightarrow> 64 word \<Rightarrow> 32 word \<Rightarrow> error + 8 word list) \<Rightarrow> Model \<Rightarrow>
     string \<Rightarrow> string \<Rightarrow> 64 word \<Rightarrow> 32 word \<Rightarrow> 8 word list \<Rightarrow> error + 8 word list" where
  "Request readAt m nodeID name offset size' hash =
     (let localOk = (map_of (local m) name \<noteq> None);
          lf = lookup0 (local m) name;
          globalOk = (map_of (global m) name \<noteq> None) in
      if \<not> localOk \<or> \<not> globalOk then Inl ErrNoSuchFile
      else if Flags lf AND FlagInvalid \<noteq> 0 then Inl ErrInvalid
      else readAt (dir m) name offset size')"

section \<open>The index operation of package main\<close>

text \<open>
  \<open>model.go\<close> of package \<open>main\<close> has an \<open>Index\<close> of its own. Its \<open>File\<close> and
  \<open>protocol.FileInfo\<close> have no version; records are compared by \<open>Modified\<close> alone; and a
  received record with the DELETED flag is skipped unless the option \<open>opts.Delete\<close> is
  set, which is the parameter \<open>optsDelete\<close>. \<open>MainModel\<close> has the fields that this
  \<open>Index\<close> and the two recomputations read or write; \<open>MainFile\<close> has the fields that
  \<open>fileFromFileInfo\<close> of package \<open>main\<close> fills. Printing the statistics has no effect
  on the state.
\<close>

record MainFile =
  mf_Name :: string
  mf_Flags :: "32 word"
  mf_Modified :: int
  mf_Blocks :: "Block list"

record MainFileInfo =
  mfi_Name :: string
  mfi_Flags :: "32 word"
  mfi_Modified :: int
  mfi_Blocks :: "BlockInfo list"

record MainModel =
  main_global :: "MainFile gomap"
  main_local :: "MainFile gomap"
  main_remote :: "(MainFile gomap) gomap"
  main_need :: "bool gomap"
  main_updateGlobal :: int

definition main_fileFromFileInfo :: "MainFileInfo \<Rightarrow> MainFile" where
  "main_fileFromFileInfo f =
     \<lparr>mf_Name = mfi_Name f, mf_Flags = mfi_Flags f, mf_Modified = mfi_Modified f,
      mf_Blocks = fst (fold fromInfoStep (mfi_Blocks f) ([], 0))\<rparr>"

definition main_mergeEntry :: "string \<times> MainFile \<Rightarrow> MainFile gomap \<Rightarrow> MainFile gomap" where
  "main_mergeEntry e newGlobal = (case e of (n, f) \<Rightarrow>
     (case map_of newGlobal n of
        None \<Rightarrow> AList.update n f newGlobal
      | Some cf \<Rightarrow> if mf_Modified cf < mf_Modified f then AList.update n f newGlobal
                   else newGlobal))"

definition main_recomputeGlobal :: "int \<Rightarrow> MainModel \<Rightarrow> MainModel" where
  "main_recomputeGlobal now m =
     (let newGlobal = fold (\<lambda>(p, fs) g. fold main_mergeEntry fs g) (main_remote m)
                        (fold (\<lambda>(n, f) g. AList.update n f g) (main_local m) []);
          updated = (length newGlobal \<noteq> length (main_global m) \<or>
                     list_ex (\<lambda>(n, f0). case map_of (main_global m) n of
                                 None \<Rightarrow> True
                               | Some f1 \<Rightarrow> mf_Modified f0 \<noteq> mf_Modified f1) newGlobal) in
      if updated then m\<lparr>main_updateGlobal := Unix now, main_global := newGlobal\<rparr> else m)"

definition main_recomputeNeed :: "MainModel \<Rightarrow> MainModel" where
  "main_recomputeNeed m =
     m\<lparr>main_need := fold (\<lambda>(n, f) nd.
          (case map_of (main_local m) n of
             None \<Rightarrow> AList.update n True nd
           | Some hf \<Rightarrow> if mf_Modified f > mf_Modified hf then AList.update n True nd else nd))
        (main_global m) []\<rparr>"

text \<open>The body of the loop of \<open>Index\<close>; the first branch is the \<open>continue\<close>.\<close>

definition main_indexStep :: "bool \<Rightarrow> MainFileInfo \<Rightarrow> MainFile gomap \<Rightarrow> MainFile gomap" where
  "main_indexStep optsDelete f r =
     (if mfi_Flags f AND FlagDeleted \<noteq> 0 \<and> \<not> optsDelete then r
      else AList.update (mfi_Name f) (main_fileFromFileInfo f) r)"

definition main_Index :: "bool \<Rightarrow> int \<Rightarrow> string \<Rightarrow> MainFileInfo list \<Rightarrow> MainModel \<Rightarrow> MainModel" where
  "main_Index optsDelete now nodeID fs m =
     main_recomputeNeed (main_recomputeGlobal now
       (m\<lparr>main_remote := AList.update nodeID (fold (main_indexStep optsDelete) fs [])
            (main_remote m)\<rparr>))"

section \<open>Change suppression\<close>

text \<open>
  \<open>shouldSuppressChange\<close> on the elapsed time \<open>time.Since(lastChange)\<close>, a
  \<open>time.Duration\<close>: signed 64-bit nanoseconds. \<open>numChanges\<close> is an \<open>int\<close> of a 64-bit
  platform. Sums and products wrap, comparisons are signed.
\<close>

definition Second :: "64 word" where
  "Second = 1000000000"

definition minFileHoldTimeS :: "64 word" where
  "minFileHoldTimeS = 60"

definition maxFileHoldTimeS :: "64 word" where
  "maxFileHoldTimeS = 600"

definition shouldSuppressChange :: "64 word \<Rightarrow> 64 word \<Rightarrow> bool" where
  "shouldSuppressChange sinceLast numChanges =
     (if maxFileHoldTimeS * Second <s sinceLast then False
      else if sinceLast <s (numChanges + 2) * minFileHoldTimeS * Second then True
      else False)"

text \<open>The suppression law in the words of the specification, on unbounded integers:
  the elapsed time in nanoseconds and the count.\<close>

definition suppressionLaw :: "int \<Rightarrow> int \<Rightarrow> bool" where
  "suppressionLaw elapsed count =
     (if elapsed > 600 * 1000000000 then False
      else if elapsed < (count + 2) * 60 * 1000000000 then True
      else False)"

section \<open>The records that compete for a name\<close>

text \<open>The records that the remote indexes hold for a name, in the order of the peers,
  and before them the local record if there is one.\<close>

definition remoteRecords :: "Model \<Rightarrow> string \<Rightarrow> File list" where
  "remoteRecords m n =
     concat (map (\<lambda>(p, fs). case map_of fs n of None \<Rightarrow> [] | Some r \<Rightarrow> [r]) (remote m))"

definition candidates :: "Model \<Rightarrow> string \<Rightarrow> File list" where
  "candidates m n =
     (case map_of (local m) n of None \<Rightarrow> [] | Some l \<Rightarrow> [l]) @ remoteRecords m n"

text \<open>\<open>x\<close> is a maximum of \<open>cs\<close> for \<open>NewerThan\<close>: it is one of them and none is newer.\<close>

definition newestAmong :: "File list \<Rightarrow> File \<Rightarrow> bool" where
  "newestAmong cs x \<longleftrightarrow> x \<in> set cs \<and> list_all (\<lambda>c. \<not> NewerThan c x) cs"

section \<open>Auxiliary notions for the proofs\<close>

text \<open>What \<open>markDeletedLocals\<close> stores for an entry \<open>(n, f)\<close> of the old local map whose
  name is missing from the new one: nothing when the global record is newer, else the
  tombstone, or \<open>f\<close> itself when it is a tombstone already.\<close>

definition kept :: "File gomap \<Rightarrow> string \<Rightarrow> File \<Rightarrow> File option" where
  "kept glob n f = (if NewerThan (lookup0 glob n) f then None
                    else Some (if Flags f AND FlagDeleted = 0 then tombstone f else f))"

text \<open>The map that the first loop of \<open>ReplaceLocal\<close> builds from the scanned list.\<close>

definition fsMap :: "File list \<Rightarrow> File gomap" where
  "fsMap fs = fold (\<lambda>f l. AList.update (Name f) f l) fs []"

text \<open>The protocol form of a block, as \<open>fileInfoFromFile\<close> builds it.\<close>

definition toInfo :: "Block \<Rightarrow> BlockInfo" where
  "toInfo b = \<lparr>bi_Length = Length b, bi_Hash = Hash b\<rparr>"

section \<open>Example states\<close>

definition exBlock :: Block where
  "exBlock = \<lparr>Offset = 0, Length = 7, Hash = [1, 2]\<rparr>"

definition exLocalA :: File where
  "exLocalA = \<lparr>Name = ''a'', Flags = 420, Modified = 5, Version = 0, Blocks = [exBlock]\<rparr>"

definition exRemoteA :: File where
  "exRemoteA = \<lparr>Name = ''a'', Flags = 0, Modified = 5, Version = 0, Blocks = []\<rparr>"

definition exGoneA :: File where
  "exGoneA = \<lparr>Name = ''a'', Flags = 4096, Modified = 9, Version = 1, Blocks = []\<rparr>"

text \<open>A peer sent a record for \<open>a\<close>; then the local scan found \<open>a\<close> with the same
  \<open>(modified, version)\<close> pair but other flags and blocks.\<close>

definition exStale :: Model where
  "exStale = \<lparr>dir = ''repo'', global = [(''a'', exRemoteA)], local = [(''a'', exLocalA)],
     remote = [(''p'', [(''a'', exRemoteA)])], need = [],
     updatedLocal = 0, updateGlobal = 1, lastIdxBcastRequest = 0, delete = False\<rparr>"

definition exFresh :: Model where
  "exFresh = exStale\<lparr>global := []\<rparr>"

text \<open>A peer announced the deletion of \<open>a\<close>, and deletion is enabled.\<close>

definition exBehind :: Model where
  "exBehind = \<lparr>dir = ''repo'', global = [(''a'', exGoneA)], local = [(''a'', exLocalA)],
     remote = [(''p'', [(''a'', exGoneA)])], need = [],
     updatedLocal = 1, updateGlobal = 1, lastIdxBcastRequest = 0, delete = True\<rparr>"

text \<open>The file \<open>b\<close>, the same file with other permission bits, and with the next version.\<close>

definition exFileB :: File where
  "exFileB = \<lparr>Name = ''b'', Flags = 420, Modified = 3, Version = 0, Blocks = [exBlock]\<rparr>"

definition exFileB' :: File where
  "exFileB' = \<lparr>Name = ''b'', Flags = 384, Modified = 3, Version = 0, Blocks = [exBlock]\<rparr>"

definition exFileB1 :: File where
  "exFileB1 = \<lparr>Name = ''b'', Flags = 420, Modified = 3, Version = 1, Blocks = [exBlock]\<rparr>"

text \<open>A file of two blocks whose offsets are the prefix sums of the lengths.\<close>

definition exBlock2 :: Block where
  "exBlock2 = \<lparr>Offset = 7, Length = 4, Hash = [3]\<rparr>"

definition exTwoBlocks :: File where
  "exTwoBlocks = \<lparr>Name = ''c'', Flags = 420, Modified = 8, Version = 2, Blocks = [exBlock, exBlock2]\<rparr>"

text \<open>A local record that change suppression marked as invalid, and a disk that
  answers every read with the same six bytes.\<close>

definition exInvalidA :: File where
  "exInvalidA = \<lparr>Name = ''a'', Flags = 8192, Modified = 5, Version = 1, Blocks = [exBlock]\<rparr>"

definition exSuppressed :: Model where
  "exSuppressed = exStale\<lparr>local := [(''a'', exInvalidA)], global := [(''a'', exInvalidA)]\<rparr>"

definition exDisk :: "string \<Rightarrow> string \<Rightarrow> 64 word \<Rightarrow> 32 word \<Rightarrow> error + 8 word list" where
  "exDisk d n off sz = Inr [102, 111, 111, 98, 97, 114]"

text \<open>A fresh model after one \<open>updateLocal\<close>, and after one \<open>SeedLocal\<close>, both at second 100.\<close>

definition exFirst :: Model where
  "exFirst = updateLocal 100000000000 exLocalA (NewModel ''repo'')"

definition exSeeded :: Model where
  "exSeeded = SeedLocal 100000000000 [fileInfoFromFile exRemoteA] (NewModel ''repo'')"

text \<open>The file \<open>a\<close> was added with \<open>updateLocal\<close> and then missed by a scan that found
  nothing: the local map holds its tombstone \<open>exDeletedA\<close>.\<close>

definition exTomb :: Model where
  "exTomb = ReplaceLocal 2000000000 [] (updateLocal 1000000000 exLocalA (NewModel ''repo''))"

definition exDeletedA :: File where
  "exDeletedA = \<lparr>Name = ''a'', Flags = 4096, Modified = 5, Version = 1, Blocks = []\<rparr>"

text \<open>An index that names \<open>a\<close> twice, and for package \<open>main\<close> an index with one
  deleted file.\<close>

definition exDupIndex :: "FileInfo list" where
  "exDupIndex = [fileInfoFromFile exRemoteA, fileInfoFromFile exLocalA]"

definition exMainGone :: MainFileInfo where
  "exMainGone = \<lparr>mfi_Name = ''a'', mfi_Flags = 4096, mfi_Modified = 9, mfi_Blocks = []\<rparr>"

definition NewMainModel :: MainModel where
  "NewMainModel = \<lparr>main_global = [], main_local = [], main_remote = [], main_need = [],
     main_updateGlobal = 0\<rparr>"

text \<open>A model that holds \<open>b\<close> and \<open>c\<close> locally while the peer \<open>p\<close> holds \<open>a\<close> and \<open>c\<close>.\<close>

definition exPeered :: Model where
  "exPeered = \<lparr>dir = ''repo'',
     global = [(''b'', exFileB), (''c'', exTwoBlocks), (''a'', exRemoteA)],
     local = [(''b'', exFileB), (''c'', exTwoBlocks)],
     remote = [(''p'', [(''a'', exRemoteA), (''c'', exTwoBlocks)])], need = [(''a'', True)],
     updatedLocal = 1, updateGlobal = 2, lastIdxBcastRequest = 1000000000, delete = False\<rparr>"

text \<open>A file whose version is the largest 32-bit number, and a model in which the peer
  \<open>p\<close> holds the same name at version 7.\<close>

definition exWrapA :: File where
  "exWrapA = \<lparr>Name = ''a'', Flags = 420, Modified = 5, Version = 4294967295, Blocks = [exBlock]\<rparr>"

definition exPeerA7 :: File where
  "exPeerA7 = \<lparr>Name = ''a'', Flags = 420, Modified = 5, Version = 7, Blocks = [exBlock]\<rparr>"

definition exPeerHolds :: Model where
  "exPeerHolds = Index 1000000000 ''p'' [fileInfoFromFile exPeerA7] (NewModel ''repo'')"

text \<open>For package \<open>main\<close>: a record that is not deleted, and a model in which the peer
  \<open>p\<close> holds it.\<close>

definition exMainKept :: MainFileInfo where
  "exMainKept = \<lparr>mfi_Name = ''b'', mfi_Flags = 420, mfi_Modified = 3, mfi_Blocks = []\<rparr>"

definition exMainPeered :: MainModel where
  "exMainPeered = \<lparr>main_global = [(''b'', main_fileFromFileInfo exMainKept)], main_local = [],
     main_remote = [(''p'', [(''b'', main_fileFromFileInfo exMainKept)])],
     main_need = [(''b'', True)], main_updateGlobal = 1\<rparr>"

section \<open>Basic facts\<close>

lemmas ex_defs = exBlock_def exLocalA_def exRemoteA_def exGoneA_def exStale_def exFresh_def
  exBehind_def

lemmas ex2_defs = exPeered_def exWrapA_def exPeerA7_def exPeerHolds_def exFileB1_def exFileB'_def
  exFileB_def exTwoBlocks_def exBlock2_def

lemmas model_defs = recomputeNeed_def recomputeGlobal_def buildGlobal_def mergeRemotes_def
  mergeEntry_def seedGlobal_def globalUpdated_def Unix_def lookup0_def needs_def Let_def
  wf_model_def wf_map_def NewerThan_def Equals_def remoteRecords_def candidates_def
  newestAmong_def FlagDeleted_def FlagInvalid_def zeroFile_def ReplaceLocal_def replaceScan_def
  replaceStep_def markDeletedLocals_def markStep_def tombstone_def updateLocal_def Index_def
  indexMap_def fileFromFileInfo_def fileInfoFromFile_def fromInfoStep_def NewModel_def

lemma NewerThan_irrefl: "\<not> NewerThan f f"
  by (simp add: NewerThan_def)

lemma NewerThan_trans: "NewerThan a b \<Longrightarrow> NewerThan b c \<Longrightarrow> NewerThan a c"
  by (auto simp: NewerThan_def)

lemma NewerThan_asym: "NewerThan a b \<Longrightarrow> \<not> NewerThan b a"
  by (auto simp: NewerThan_def)

lemma not_NewerThan_step: "\<not> NewerThan c x \<Longrightarrow> NewerThan nf x \<Longrightarrow> \<not> NewerThan c nf"
  by (auto simp: NewerThan_def)

lemma Equals_NewerThan_left: "Equals a b \<Longrightarrow> NewerThan a c = NewerThan b c"
  by (auto simp: NewerThan_def Equals_def)

lemma Equals_NewerThan_right: "Equals a b \<Longrightarrow> NewerThan c a = NewerThan c b"
  by (auto simp: NewerThan_def Equals_def)

lemma Equals_not_NewerThan: "Equals a b \<Longrightarrow> \<not> NewerThan a b"
  by (auto simp: NewerThan_def Equals_def)

lemma fold_update_append:
  "distinct (map fst xs) \<Longrightarrow> fst ` set xs \<inter> fst ` set acc = {} \<Longrightarrow>
   fold (\<lambda>(n, f) g. AList.update n f g) xs acc = acc @ xs"
proof (induction xs arbitrary: acc)
  case Nil
  then show ?case by simp
next
  case (Cons x xs)
  obtain n f where x: "x = (n, f)" by (cases x)
  have notin: "n \<notin> fst ` set acc" using Cons.prems x by auto
  have upd: "AList.update n f acc = acc @ [(n, f)]"
    using notin by (induction acc) auto
  have "fold (\<lambda>(n, f) g. AList.update n f g) xs (acc @ [(n, f)]) = (acc @ [(n, f)]) @ xs"
    using Cons.prems x by (intro Cons.IH) (auto simp: image_iff)
  then show ?case using x upd by simp
qed

lemma seedGlobal_id: "wf_map loc \<Longrightarrow> seedGlobal loc = loc"
  using fold_update_append[of loc "[]"] by (simp add: seedGlobal_def wf_map_def)

lemma mergeRemotes_concat:
  "mergeRemotes rem g = fold mergeEntry (concat (map snd rem)) g"
  unfolding mergeRemotes_def
  by (induction rem arbitrary: g) (auto)

lemma wf_mergeEntry: "wf_map g \<Longrightarrow> wf_map (mergeEntry e g)"
  by (auto simp: wf_map_def mergeEntry_def distinct_update split: prod.splits option.splits)

lemma wf_fold_mergeEntry: "wf_map g \<Longrightarrow> wf_map (fold mergeEntry es g)"
  by (induction es arbitrary: g) (auto simp: wf_mergeEntry)

lemma map_of_mergeEntry:
  "map_of (mergeEntry (n, nf) g) k =
     (if k = n \<and> (case map_of g n of None \<Rightarrow> True | Some lf \<Rightarrow> NewerThan nf lf)
      then Some nf else map_of g k)"
  by (auto simp: mergeEntry_def update_conv' split: option.splits)

section \<open>The rebuilt global map\<close>

lemma merge_member:
  "map_of (fold mergeEntry es g) n = Some x \<Longrightarrow> map_of g n = Some x \<or> (n, x) \<in> set es"
proof (induction es arbitrary: g)
  case Nil
  then show ?case by simp
next
  case (Cons e es)
  obtain k nf where e: "e = (k, nf)" by (cases e)
  from Cons.prems have "map_of (fold mergeEntry es (mergeEntry e g)) n = Some x" by simp
  from Cons.IH[OF this] show ?case
    using e by (auto simp: map_of_mergeEntry split: if_splits)
qed

lemma merge_upper:
  "map_of (fold mergeEntry es g) n = Some x \<Longrightarrow>
   (map_of g n = Some c \<or> (n, c) \<in> set es) \<Longrightarrow> \<not> NewerThan c x"
proof (induction es arbitrary: g c)
  case Nil
  then show ?case by (auto simp: NewerThan_irrefl)
next
  case (Cons e es)
  obtain k nf where e: "e = (k, nf)" by (cases e)
  let ?g' = "mergeEntry e g"
  from Cons.prems have res: "map_of (fold mergeEntry es ?g') n = Some x" by simp
  show ?case
  proof (cases "(n, c) \<in> set es")
    case True
    with Cons.IH[OF res] show ?thesis by blast
  next
    case False
    show ?thesis
    proof (cases "map_of ?g' n")
      case None
      then have "map_of g n = None" "k \<noteq> n"
        using e by (auto simp: map_of_mergeEntry split: if_splits option.splits)
      with Cons.prems False e show ?thesis by auto
    next
      case (Some y)
      have yx: "\<not> NewerThan y x" using Cons.IH[OF res, of y] Some by blast
      have "\<not> NewerThan c y"
        using Cons.prems(2) False Some e
        by (auto simp: map_of_mergeEntry NewerThan_irrefl NewerThan_asym split: if_splits option.splits)
      with yx show ?thesis by (auto simp: NewerThan_def)
    qed
  qed
qed

lemma merge_keeps:
  "map_of g n = Some l \<Longrightarrow> \<forall>r. (n, r) \<in> set es \<longrightarrow> \<not> NewerThan r l \<Longrightarrow>
   map_of (fold mergeEntry es g) n = Some l"
proof (induction es arbitrary: g)
  case Nil
  then show ?case by simp
next
  case (Cons e es)
  obtain k nf where e: "e = (k, nf)" by (cases e)
  have "map_of (mergeEntry e g) n = Some l"
    using Cons.prems e by (auto simp: map_of_mergeEntry)
  then show ?case using Cons.IH Cons.prems(2) by simp
qed

lemma remoteRecords_set_aux:
  "list_all (\<lambda>(p, fs). wf_map fs) rs \<Longrightarrow>
   set (concat (map (\<lambda>(p, fs). case map_of fs n of None \<Rightarrow> [] | Some r \<Rightarrow> [r]) rs)) =
     {r. (n, r) \<in> set (concat (map snd rs))}"
proof (induction rs)
  case Nil
  then show ?case by simp
next
  case (Cons a rs)
  obtain p fs where a: "a = (p, fs)" by (cases a)
  with Cons.prems have d: "distinct (map fst fs)" by (simp add: wf_map_def)
  have "set (case map_of fs n of None \<Rightarrow> [] | Some r \<Rightarrow> [r]) = {r. (n, r) \<in> set fs}"
    using d by (auto split: option.splits simp: map_of_eq_None_iff image_iff)
  then show ?case using Cons a by auto
qed

lemma remoteRecords_set:
  "list_all (\<lambda>(p, fs). wf_map fs) (remote m) \<Longrightarrow>
   set (remoteRecords m n) = {r. (n, r) \<in> set (concat (map snd (remote m)))}"
  unfolding remoteRecords_def by (rule remoteRecords_set_aux)

lemma globalUpdated_False:
  assumes "\<not> globalUpdated ng old" "wf_map ng" "wf_map old"
  shows "map_of old n = Some g \<Longrightarrow> \<exists>x. map_of ng n = Some x \<and> Equals x g"
proof -
  assume g: "map_of old n = Some g"
  from assms(1) have len: "length ng = length old"
    and all: "\<forall>(k, f0) \<in> set ng. \<exists>f1. map_of old k = Some f1 \<and> Equals f0 f1"
    by (auto simp: globalUpdated_def list_ex_iff split: option.splits)
  have sub: "fst ` set ng \<subseteq> fst ` set old"
  proof
    fix k assume "k \<in> fst ` set ng"
    then obtain f0 where "(k, f0) \<in> set ng" by auto
    with all obtain f1 where "map_of old k = Some f1" by auto
    then show "k \<in> fst ` set old" by (meson domI domIff map_of_eq_None_iff)
  qed
  have "card (fst ` set ng) = length ng" "card (fst ` set old) = length old"
    using assms(2,3) distinct_card[of "map fst ng"] distinct_card[of "map fst old"]
    by (simp_all add: wf_map_def)
  with len sub have "fst ` set ng = fst ` set old"
    by (simp add: card_subset_eq)
  moreover have "n \<in> fst ` set old" using g by (meson domI domIff map_of_eq_None_iff)
  ultimately have "n \<in> fst ` set ng" by simp
  then obtain x where x: "(n, x) \<in> set ng" by force
  with all obtain f1 where "map_of old n = Some f1" "Equals x f1" by auto
  with g have "Equals x g" by simp
  moreover have "map_of ng n = Some x" using x assms(2) by (simp add: wf_map_def)
  ultimately show ?thesis by blast
qed

lemma wf_buildGlobal: "wf_map (local m) \<Longrightarrow> wf_map (buildGlobal m)"
  by (simp add: buildGlobal_def mergeRemotes_concat seedGlobal_id wf_fold_mergeEntry)

lemma buildGlobal_newest:
  assumes "wf_model m" "map_of (buildGlobal m) n = Some x"
  shows "newestAmong (candidates m n) x"
proof -
  let ?es = "concat (map snd (remote m))"
  from assms(1) have wl: "wf_map (local m)" and wr: "list_all (\<lambda>(p, fs). wf_map fs) (remote m)"
    by (simp_all add: wf_model_def)
  have bg: "buildGlobal m = fold mergeEntry ?es (local m)"
    by (simp add: buildGlobal_def mergeRemotes_concat seedGlobal_id wl)
  have cs: "set (candidates m n) = {c. map_of (local m) n = Some c \<or> (n, c) \<in> set ?es}"
    using remoteRecords_set[OF wr, of n] by (auto simp: candidates_def split: option.splits)
  have mem: "x \<in> set (candidates m n)"
    using merge_member[of ?es "local m" n x] assms(2) bg cs by auto
  have up: "\<And>c. c \<in> set (candidates m n) \<Longrightarrow> \<not> NewerThan c x"
    using merge_upper[of ?es "local m" n x] assms(2) bg cs by auto
  show ?thesis using mem up by (simp add: newestAmong_def list_all_iff)
qed

lemma buildGlobal_local:
  assumes "wf_model m" "map_of (local m) n = Some l"
    "list_all (\<lambda>r. \<not> NewerThan r l) (remoteRecords m n)"
  shows "map_of (buildGlobal m) n = Some l"
proof -
  let ?es = "concat (map snd (remote m))"
  from assms(1) have wl: "wf_map (local m)" and wr: "list_all (\<lambda>(p, fs). wf_map fs) (remote m)"
    by (simp_all add: wf_model_def)
  have bg: "buildGlobal m = fold mergeEntry ?es (local m)"
    by (simp add: buildGlobal_def mergeRemotes_concat seedGlobal_id wl)
  have "\<forall>r. (n, r) \<in> set ?es \<longrightarrow> \<not> NewerThan r l"
    using assms(3) remoteRecords_set[OF wr, of n] by (auto simp: list_all_iff)
  from merge_keeps[OF assms(2) this] show ?thesis by (simp add: bg)
qed

lemma recomputeGlobal_lookup:
  assumes "wf_model m" "map_of (global (recomputeGlobal now m)) n = Some g"
  shows "\<exists>x. map_of (buildGlobal m) n = Some x \<and> Equals g x \<and>
             (globalUpdated (buildGlobal m) (global m) \<longrightarrow> g = x)"
proof (cases "globalUpdated (buildGlobal m) (global m)")
  case True
  with assms(2) show ?thesis by (simp add: recomputeGlobal_def Equals_def Let_def)
next
  case False
  with assms(2) have g: "map_of (global m) n = Some g" by (simp add: recomputeGlobal_def Let_def)
  have "wf_map (buildGlobal m)" "wf_map (global m)"
    using assms(1) by (simp_all add: wf_model_def wf_buildGlobal)
  from globalUpdated_False[OF False this g] obtain x
    where "map_of (buildGlobal m) n = Some x" "Equals x g" by blast
  with False show ?thesis by (auto simp: Equals_def)
qed

text \<open>
  C1 (as amended). After \<open>recomputeGlobal\<close>, for every name \<open>n\<close> that is a key of
  \<open>global\<close>, the rebuilt map holds a record \<open>x\<close> for \<open>n\<close> that is a \<open>NewerThan\<close>-maximum
  over the local record for \<open>n\<close> (if any) and all remote records for \<open>n\<close>, and
  \<open>global[n]\<close> \<open>Equals\<close> \<open>x\<close>: it has the same \<open>(modified, version)\<close> pair. \<open>global[n]\<close> is
  \<open>x\<close> itself whenever the rebuilt map is published, that is, whenever it differs from
  the previous \<open>global\<close> in length or in the \<open>(modified, version)\<close> pair of some name.
  When \<open>local\<close> contains \<open>n\<close> and no remote record is strictly \<open>NewerThan\<close> it, \<open>x\<close> is
  exactly the local record; and while the map is rebuilt, a remote record that is not
  strictly \<open>NewerThan\<close> the incumbent leaves the map as it is.
\<close>

theorem recomputeGlobal_newest:
  assumes "wf_model m" and "map_of (global (recomputeGlobal now m)) n = Some g"
  shows "\<exists>x. map_of (buildGlobal m) n = Some x \<and> newestAmong (candidates m n) x \<and> Equals g x \<and>
     (globalUpdated (buildGlobal m) (global m) \<longrightarrow> g = x) \<and>
     (\<forall>l. map_of (local m) n = Some l \<and> list_all (\<lambda>r. \<not> NewerThan r l) (remoteRecords m n)
          \<longrightarrow> x = l) \<and>
     (\<forall>g0 nf lf. map_of g0 n = Some lf \<and> \<not> NewerThan nf lf \<longrightarrow> mergeEntry (n, nf) g0 = g0)"
proof -
  have keep: "\<forall>g0 nf lf. map_of g0 n = Some lf \<and> \<not> NewerThan nf lf \<longrightarrow> mergeEntry (n, nf) g0 = g0"
    by (simp add: mergeEntry_def)
  from recomputeGlobal_lookup[OF assms] obtain x where
    x: "map_of (buildGlobal m) n = Some x" "Equals g x"
       "globalUpdated (buildGlobal m) (global m) \<longrightarrow> g = x" by blast
  have "newestAmong (candidates m n) x" using buildGlobal_newest[OF assms(1) x(1)] .
  moreover have "\<forall>l. map_of (local m) n = Some l \<and> list_all (\<lambda>r. \<not> NewerThan r l) (remoteRecords m n)
          \<longrightarrow> x = l"
    using buildGlobal_local[OF assms(1)] x(1) by auto
  ultimately show ?thesis using x keep by blast
qed

theorem recomputeGlobal_newest_witness:
  "wf_model exFresh \<and> map_of (global (recomputeGlobal 2000000000 exFresh)) ''a'' = Some exLocalA \<and>
   globalUpdated (buildGlobal exFresh) (global exFresh) \<and>
   map_of (local exFresh) ''a'' = Some exLocalA \<and>
   list_all (\<lambda>r. \<not> NewerThan r exLocalA) (remoteRecords exFresh ''a'') \<and>
   (\<exists>x. map_of (buildGlobal exFresh) ''a'' = Some x \<and> newestAmong (candidates exFresh ''a'') x \<and>
      Equals exLocalA x \<and> exLocalA = x) \<and>
   map_of [(''a'', exLocalA)] ''a'' = Some exLocalA \<and> \<not> NewerThan exRemoteA exLocalA \<and>
   mergeEntry (''a'', exRemoteA) [(''a'', exLocalA)] = [(''a'', exLocalA)]"
proof -
  have h1: "wf_model exFresh" by (simp add: ex_defs model_defs)
  have h2: "map_of (global (recomputeGlobal 2000000000 exFresh)) ''a'' = Some exLocalA"
    by (simp add: ex_defs model_defs)
  have h3: "globalUpdated (buildGlobal exFresh) (global exFresh)" by (simp add: ex_defs model_defs)
  have h4: "map_of (local exFresh) ''a'' = Some exLocalA" by (simp add: ex_defs model_defs)
  have h5: "list_all (\<lambda>r. \<not> NewerThan r exLocalA) (remoteRecords exFresh ''a'')"
    by (simp add: ex_defs model_defs)
  have h6: "map_of [(''a'', exLocalA)] ''a'' = Some exLocalA \<and> \<not> NewerThan exRemoteA exLocalA"
    by (simp add: ex_defs model_defs)
  from recomputeGlobal_newest[OF h1 h2] h1 h2 h3 h4 h5 h6 show ?thesis by blast
qed

text \<open>
  The claim as first stated asks for the local record itself. In \<open>exStale\<close> the local map
  contains \<open>a\<close> and no remote record is newer, yet \<open>global\<close> keeps the record of the
  peer, which differs in flags and blocks: the rebuilt map is not published, because
  it has the same length and the same \<open>(modified, version)\<close> pairs as the old one. The
  state arises from \<open>Index\<close> followed by \<open>ReplaceLocal\<close>.
\<close>

theorem recomputeGlobal_exact_counterexample:
  "wf_model exStale \<and> map_of (local exStale) ''a'' = Some exLocalA \<and>
   list_all (\<lambda>r. \<not> NewerThan r exLocalA) (remoteRecords exStale ''a'') \<and>
   map_of (global (recomputeGlobal 2000000000 exStale)) ''a'' = Some exRemoteA \<and>
   exRemoteA \<noteq> exLocalA \<and>
   ReplaceLocal 2000000000 [exLocalA]
      (Index 1000000000 ''p'' [fileInfoFromFile exRemoteA] (NewModel ''repo''))
    = exStale\<lparr>updatedLocal := 2, lastIdxBcastRequest := 2000000000\<rparr>"
  by (simp add: ex_defs model_defs)

section \<open>The need set\<close>

lemma local_recomputeGlobal [simp]: "local (recomputeGlobal now m) = local m"
  and remote_recomputeGlobal [simp]: "remote (recomputeGlobal now m) = remote m"
  and delete_recomputeGlobal [simp]: "delete (recomputeGlobal now m) = delete m"
  and need_recomputeGlobal [simp]: "need (recomputeGlobal now m) = need m"
  by (simp_all add: recomputeGlobal_def Let_def)

lemma local_recomputeNeed [simp]: "local (recomputeNeed m) = local m"
  and global_recomputeNeed [simp]: "global (recomputeNeed m) = global m"
  and remote_recomputeNeed [simp]: "remote (recomputeNeed m) = remote m"
  and delete_recomputeNeed [simp]: "delete (recomputeNeed m) = delete m"
  by (simp_all add: recomputeNeed_def)

lemma need_fold_keys:
  "fst ` set (fold (\<lambda>(n, gf) nd. if needs m n gf then AList.update n True nd else nd) gs acc) =
     fst ` set acc \<union> {n. \<exists>gf. (n, gf) \<in> set gs \<and> needs m n gf}"
proof (induction gs arbitrary: acc)
  case Nil
  then show ?case by simp
next
  case (Cons e gs)
  obtain k gf where e: "e = (k, gf)" by (cases e)
  show ?case unfolding fold_simps comp_def Cons.IH using e
    by (auto simp: dom_update)
qed

lemma needs_sound:
  assumes "needs m n gf"
  shows "(case map_of (local m) n of None \<Rightarrow> True | Some lf \<Rightarrow> NewerThan gf lf) \<and>
         Flags gf AND FlagInvalid = 0 \<and>
         (Flags gf AND FlagDeleted \<noteq> 0 \<longrightarrow> delete m \<and> map_of (local m) n \<noteq> None)"
  using assms by (auto simp: needs_def Let_def lookup0_def split: if_splits option.splits)

text \<open>
  C2. After \<open>recomputeNeed\<close>, every name in the need set has a global record that is
  \<open>NewerThan\<close> the local record (a name absent from \<open>local\<close> counts as older than
  everything), that does not have the INVALID flag and that, if it has the DELETED
  flag, comes with deletion enabled and with the name present in \<open>local\<close>.
\<close>

theorem recomputeNeed_sound:
  assumes "wf_map (global m)" and "n \<in> fst ` set (need (recomputeNeed m))"
  shows "\<exists>gf. map_of (global (recomputeNeed m)) n = Some gf \<and>
     (case map_of (local (recomputeNeed m)) n of None \<Rightarrow> True | Some lf \<Rightarrow> NewerThan gf lf) \<and>
     Flags gf AND FlagInvalid = 0 \<and>
     (Flags gf AND FlagDeleted \<noteq> 0 \<longrightarrow>
        delete (recomputeNeed m) \<and> map_of (local (recomputeNeed m)) n \<noteq> None)"
proof -
  from assms(2) obtain gf where gf: "(n, gf) \<in> set (global m)" "needs m n gf"
    by (auto simp: recomputeNeed_def need_fold_keys)
  from gf(1) assms(1) have "map_of (global m) n = Some gf" by (simp add: wf_map_def)
  with needs_sound[OF gf(2)] show ?thesis by simp
qed

theorem recomputeNeed_sound_witness:
  "wf_map (global exBehind) \<and> ''a'' \<in> fst ` set (need (recomputeNeed exBehind)) \<and>
   Flags exGoneA AND FlagDeleted \<noteq> 0 \<and>
   (\<exists>gf. map_of (global (recomputeNeed exBehind)) ''a'' = Some gf \<and>
     (case map_of (local (recomputeNeed exBehind)) ''a'' of
        None \<Rightarrow> True | Some lf \<Rightarrow> NewerThan gf lf) \<and>
     Flags gf AND FlagInvalid = 0 \<and>
     (Flags gf AND FlagDeleted \<noteq> 0 \<longrightarrow>
        delete (recomputeNeed exBehind) \<and> map_of (local (recomputeNeed exBehind)) ''a'' \<noteq> None))"
proof -
  have h1: "wf_map (global exBehind)" by (simp add: ex_defs model_defs)
  have h2: "''a'' \<in> fst ` set (need (recomputeNeed exBehind))" by (simp add: ex_defs model_defs)
  have h3: "Flags exGoneA AND FlagDeleted \<noteq> 0" by (simp add: ex_defs model_defs)
  from recomputeNeed_sound[OF h1 h2] h1 h2 h3 show ?thesis by blast
qed

section \<open>Deletion marking and the replacement of the local index\<close>



lemma markStep_snd:
  "map_of (snd (markStep glob (k, f) (u, nl))) n =
     (if n = k \<and> map_of nl k = None then kept glob k f else map_of nl n)"
  by (auto simp: markStep_def kept_def update_conv')

lemma markFold_lookup:
  "distinct (map fst loc) \<Longrightarrow>
   map_of (snd (fold (markStep glob) loc (u, nl))) n =
     (case map_of nl n of Some x \<Rightarrow> Some x
      | None \<Rightarrow> (case map_of loc n of None \<Rightarrow> None | Some f \<Rightarrow> kept glob n f))"
proof (induction loc arbitrary: u nl)
  case Nil
  then show ?case by (simp split: option.splits)
next
  case (Cons e loc)
  obtain k f where e: "e = (k, f)" by (cases e)
  obtain u' nl' where st: "markStep glob (k, f) (u, nl) = (u', nl')" by (cases "markStep glob (k, f) (u, nl)")
  have nl': "\<And>x. map_of nl' x = (if x = k \<and> map_of nl k = None then kept glob k f else map_of nl x)"
    using markStep_snd[of glob k f u nl] st by simp
  have kn: "map_of loc k = None" using Cons.prems e by (simp add: map_of_eq_None_iff)
  have d: "distinct (map fst loc)" using Cons.prems by simp
  show ?case
    unfolding e fold_simps comp_def st Cons.IH[OF d] nl'
    using kn by (auto split: option.splits)
qed

lemma markFold_flag:
  "distinct (map fst loc) \<Longrightarrow>
   fst (fold (markStep glob) loc (u, nl)) \<longleftrightarrow>
     u \<or> (\<exists>(n, f) \<in> set loc. map_of nl n = None \<and> \<not> NewerThan (lookup0 glob n) f \<and>
            Flags f AND FlagDeleted = 0)"
proof (induction loc arbitrary: u nl)
  case Nil
  then show ?case by simp
next
  case (Cons e loc)
  obtain k f where e: "e = (k, f)" by (cases e)
  obtain u' nl' where st: "markStep glob (k, f) (u, nl) = (u', nl')" by (cases "markStep glob (k, f) (u, nl)")
  have nl': "\<And>x. x \<noteq> k \<Longrightarrow> map_of nl' x = map_of nl x"
    using markStep_snd[of glob k f u nl] st by simp
  have u': "u' \<longleftrightarrow> u \<or> (map_of nl k = None \<and> \<not> NewerThan (lookup0 glob k) f \<and> Flags f AND FlagDeleted = 0)"
    using st by (auto simp: markStep_def split: if_splits)
  have kn: "k \<notin> fst ` set loc" using Cons.prems e by simp
  have d: "distinct (map fst loc)" using Cons.prems by simp
  have "(\<exists>(n, f) \<in> set loc. map_of nl' n = None \<and> \<not> NewerThan (lookup0 glob n) f \<and> Flags f AND FlagDeleted = 0)
      \<longleftrightarrow> (\<exists>(n, f) \<in> set loc. map_of nl n = None \<and> \<not> NewerThan (lookup0 glob n) f \<and> Flags f AND FlagDeleted = 0)"
  proof (intro bex_cong refl)
    fix x assume x: "x \<in> set loc"
    obtain n f' where nf: "x = (n, f')" by (cases x)
    with x kn have "n \<noteq> k" by force
    then show "(case x of (n, f) \<Rightarrow> map_of nl' n = None \<and> \<not> NewerThan (lookup0 glob n) f \<and> Flags f AND FlagDeleted = 0)
      = (case x of (n, f) \<Rightarrow> map_of nl n = None \<and> \<not> NewerThan (lookup0 glob n) f \<and> Flags f AND FlagDeleted = 0)"
      using nl' nf by simp
  qed
  then show ?case
    unfolding e fold_simps comp_def st Cons.IH[OF d] u' by auto
qed

lemma wf_markStep: "wf_map nl \<Longrightarrow> wf_map (snd (markStep glob e (u, nl)))"
  by (cases e) (auto simp: markStep_def wf_map_def distinct_update)

lemma wf_markFold: "wf_map nl \<Longrightarrow> wf_map (snd (fold (markStep glob) loc (u, nl)))"
proof (induction loc arbitrary: u nl)
  case Nil
  then show ?case by simp
next
  case (Cons e loc)
  obtain u' nl' where st: "markStep glob e (u, nl) = (u', nl')" by (cases "markStep glob e (u, nl)")
  with wf_markStep[OF Cons.prems, of glob e u] have "wf_map nl'" by simp
  from Cons.IH[OF this] show ?case by (simp add: st)
qed


lemma replaceFold_snd:
  "snd (fold (replaceStep loc) fs (u, nl)) = fold (\<lambda>f l. AList.update (Name f) f l) fs nl"
  by (induction fs arbitrary: u nl) (auto simp: replaceStep_def)

lemma replaceFold_fst:
  "fst (fold (replaceStep loc) fs (u, nl)) \<longleftrightarrow>
     u \<or> (\<exists>f \<in> set fs. \<not> Equals (lookup0 loc (Name f)) f)"
  by (induction fs arbitrary: u nl) (auto simp: replaceStep_def)

lemma fold_update_keys:
  "fst ` set (fold (\<lambda>f l. AList.update (key f) (val f) l) fs nl) = fst ` set nl \<union> key ` set fs"
  by (induction fs arbitrary: nl) (auto simp: dom_update)

lemma fold_update_wf:
  "wf_map nl \<Longrightarrow> wf_map (fold (\<lambda>f l. AList.update (key f) (val f) l) fs nl)"
  by (induction fs arbitrary: nl) (auto simp: wf_map_def distinct_update)

lemma fold_update_lookup:
  "map_of (fold (\<lambda>f l. AList.update (key f) (val f) l) fs nl) k =
     (case map_of (rev (map (\<lambda>f. (key f, val f)) fs)) k of None \<Rightarrow> map_of nl k | Some v \<Rightarrow> Some v)"
proof (induction fs arbitrary: nl)
  case Nil
  then show ?case by simp
next
  case (Cons f fs)
  show ?case unfolding fold_simps comp_def Cons.IH
    by (auto simp: update_conv' map_add_def split: option.splits)
qed

lemma fsMap_keys: "fst ` set (fsMap fs) = Name ` set fs"
  using fold_update_keys[of Name "\<lambda>f. f" fs "[]"] by (simp add: fsMap_def)

lemma fsMap_wf: "wf_map (fsMap fs)"
  using fold_update_wf[of "[]" Name "\<lambda>f. f" fs] by (simp add: fsMap_def wf_map_def)

lemma fsMap_None: "n \<notin> Name ` set fs \<Longrightarrow> map_of (fsMap fs) n = None"
  using fsMap_keys[of fs] by (simp add: map_of_eq_None_iff)

lemma replaceScan_eq:
  "replaceScan fs m =
     ((\<exists>f \<in> set fs. \<not> Equals (lookup0 (local m) (Name f)) f) \<or>
      fst (fold (markStep (global m)) (local m) (False, fsMap fs)) \<or>
      length (snd (fold (markStep (global m)) (local m) (False, fsMap fs))) \<noteq> length (local m),
      snd (fold (markStep (global m)) (local m) (False, fsMap fs)))"
proof -
  have "fold (replaceStep (local m)) fs (False, []) =
        (\<exists>f \<in> set fs. \<not> Equals (lookup0 (local m) (Name f)) f, fsMap fs)"
    using replaceFold_fst[of "local m" fs False "[]"] replaceFold_snd[of "local m" fs False "[]"]
    by (simp add: fsMap_def prod_eq_iff)
  then show ?thesis
    by (simp add: replaceScan_def markDeletedLocals_def split: prod.splits)
qed

lemma local_ReplaceLocal:
  "local (ReplaceLocal now fs m) = (if fst (replaceScan fs m) then snd (replaceScan fs m) else local m)"
  by (simp add: ReplaceLocal_def split: prod.splits)

lemma newLocal_lookup:
  assumes "wf_map (local m)"
  shows "map_of (snd (replaceScan fs m)) n =
     (case map_of (fsMap fs) n of Some x \<Rightarrow> Some x
      | None \<Rightarrow> (case map_of (local m) n of None \<Rightarrow> None | Some f \<Rightarrow> kept (global m) n f))"
  using assms markFold_lookup[of "local m" "global m" False "fsMap fs" n]
  by (simp add: replaceScan_eq wf_map_def)

lemma ReplaceLocal_alt:
  "ReplaceLocal now fs m =
     (if fst (replaceScan fs m)
      then (recomputeNeed (recomputeGlobal now (m\<lparr>local := snd (replaceScan fs m)\<rparr>)))
             \<lparr>updatedLocal := Unix now, lastIdxBcastRequest := now\<rparr>
      else m)"
  by (cases "replaceScan fs m") (simp add: ReplaceLocal_def)

lemma ReplaceLocal_unchanged: "\<not> fst (replaceScan fs m) \<Longrightarrow> ReplaceLocal now fs m = m"
  by (simp add: ReplaceLocal_alt)

lemma ReplaceLocal_tombstones:
  assumes "wf_map (local m)" and "map_of (local m) n = Some old" and "n \<notin> Name ` set fs"
    and "\<not> NewerThan (lookup0 (global m) n) old" and "Flags old AND FlagDeleted = 0"
  shows "map_of (local (ReplaceLocal now fs m)) n = Some (tombstone old)"
proof -
  have fsn: "map_of (fsMap fs) n = None" using assms(3) by (rule fsMap_None)
  have nl: "map_of (snd (replaceScan fs m)) n = kept (global m) n old"
    using newLocal_lookup[OF assms(1), of fs n] fsn assms(2) by simp
  have mem: "(n, old) \<in> set (local m)" using assms(2) by (rule map_of_SomeD)
  have upd: "fst (replaceScan fs m)"
    using markFold_flag[of "local m" "global m" False "fsMap fs"] assms(1,4,5) mem fsn
    by (auto simp: replaceScan_eq wf_map_def)
  show ?thesis using nl upd assms(4,5) by (simp add: local_ReplaceLocal kept_def)
qed

lemma card_keys: "wf_map a \<Longrightarrow> card (dom (map_of a)) = length a"
  using distinct_card[of "map fst a"] by (simp add: wf_map_def dom_map_of_conv_image_fst)

lemma wf_newLocal: "wf_map (snd (replaceScan fs m))"
  using wf_markFold[OF fsMap_wf] by (simp add: replaceScan_eq)

lemma ReplaceLocal_drops_newer:
  assumes "wf_map (local m)" and "map_of (local m) n = Some old" and "n \<notin> Name ` set fs"
    and "NewerThan (lookup0 (global m) n) old"
    and new: "\<forall>f \<in> set fs. map_of (local m) (Name f) = None \<longrightarrow> \<not> (Modified f = 0 \<and> Version f = 0)"
  shows "map_of (local (ReplaceLocal now fs m)) n = None"
proof -
  let ?nl = "snd (replaceScan fs m)"
  have fsn: "map_of (fsMap fs) n = None" using assms(3) by (rule fsMap_None)
  have nl: "map_of ?nl n = None"
    using newLocal_lookup[OF assms(1), of fs n] fsn assms(2,4) by (simp add: kept_def)
  have upd: "fst (replaceScan fs m)"
  proof (rule ccontr)
    assume no: "\<not> fst (replaceScan fs m)"
    then have eq: "\<forall>f \<in> set fs. Equals (lookup0 (local m) (Name f)) f"
      and len: "length ?nl = length (local m)"
      by (auto simp: replaceScan_eq)
    have known: "\<And>f. f \<in> set fs \<Longrightarrow> map_of (local m) (Name f) \<noteq> None"
    proof
      fix f assume f: "f \<in> set fs" and none: "map_of (local m) (Name f) = None"
      from eq f have "Equals (lookup0 (local m) (Name f)) f" by blast
      with none have "Equals zeroFile f" by (simp add: lookup0_def)
      then have "Modified f = 0 \<and> Version f = 0" by (simp add: Equals_def zeroFile_def)
      with new f none show False by blast
    qed
    have sub: "dom (map_of ?nl) \<subseteq> dom (map_of (local m))"
    proof
      fix k assume "k \<in> dom (map_of ?nl)"
      then obtain v where v: "map_of ?nl k = Some v" by blast
      show "k \<in> dom (map_of (local m))"
      proof (cases "map_of (fsMap fs) k")
        case None
        with v newLocal_lookup[OF assms(1), of fs k] show ?thesis
          by (auto split: option.splits)
      next
        case (Some x)
        then have "k \<in> fst ` set (fsMap fs)" by (meson domI domIff map_of_eq_None_iff)
        then obtain f where "f \<in> set fs" "k = Name f" unfolding fsMap_keys by blast
        with known show ?thesis by blast
      qed
    qed
    have "n \<in> dom (map_of (local m))" "n \<notin> dom (map_of ?nl)" using assms(2) nl by auto
    with sub have "dom (map_of ?nl) \<subset> dom (map_of (local m))" by blast
    then have "card (dom (map_of ?nl)) < card (dom (map_of (local m)))"
      by (intro psubset_card_mono) (simp_all add: finite_dom_map_of)
    then have "length ?nl < length (local m)"
      using card_keys[OF wf_newLocal, of fs m] card_keys[OF assms(1)] by simp
    with len show False by simp
  qed
  show ?thesis using nl upd by (simp add: local_ReplaceLocal)
qed

lemma exTomb_eq:
  "exTomb = \<lparr>dir = ''repo'', global = [(''a'', exDeletedA)], local = [(''a'', exDeletedA)],
     remote = [], need = [], updatedLocal = 2, updateGlobal = 2,
     lastIdxBcastRequest = 2000000000, delete = False\<rparr>"
  by (simp add: exTomb_def exDeletedA_def ex_defs model_defs)

text \<open>
  C3 (as amended). Let \<open>ReplaceLocal(fs)\<close> be called with a list \<open>fs\<close> that omits a name
  present in the old local map. If the current global record for that name is not
  \<open>NewerThan\<close> the old local record and the old local record does not carry the DELETED
  flag, the new local map contains a tombstone for the name: the flags are exactly
  DELETED, the version is the previous local version plus one (in 32-bit arithmetic)
  and the block list is empty. If the global record is not newer and the old local
  record carries the DELETED flag already, the record stays as it is, with the same
  version. If the global record is strictly newer, and \<open>fs\<close> does not add a file that
  is new to the local map with \<open>modified\<close> 0 and version 0, the name is absent from the
  new local map.
\<close>

theorem ReplaceLocal_omitted_name:
  assumes "wf_map (local m)" and "map_of (local m) n = Some old" and "n \<notin> Name ` set fs"
  shows "(\<not> NewerThan (lookup0 (global m) n) old \<and> Flags old AND FlagDeleted = 0 \<longrightarrow>
            map_of (local (ReplaceLocal now fs m)) n =
              Some (old\<lparr>Flags := FlagDeleted, Version := Version old + 1, Blocks := []\<rparr>)) \<and>
         (\<not> NewerThan (lookup0 (global m) n) old \<and> Flags old AND FlagDeleted \<noteq> 0 \<longrightarrow>
            map_of (local (ReplaceLocal now fs m)) n = Some old) \<and>
         (NewerThan (lookup0 (global m) n) old \<and>
          (\<forall>f \<in> set fs. map_of (local m) (Name f) = None \<longrightarrow>
             \<not> (Modified f = 0 \<and> Version f = 0)) \<longrightarrow>
            map_of (local (ReplaceLocal now fs m)) n = None)"
proof -
  have fsn: "map_of (fsMap fs) n = None" using assms(3) by (rule fsMap_None)
  have nl: "map_of (snd (replaceScan fs m)) n = kept (global m) n old"
    using newLocal_lookup[OF assms(1), of fs n] fsn assms(2) by simp
  have a: "\<not> NewerThan (lookup0 (global m) n) old \<and> Flags old AND FlagDeleted = 0 \<Longrightarrow>
           map_of (local (ReplaceLocal now fs m)) n = Some (tombstone old)"
    using ReplaceLocal_tombstones[OF assms] by blast
  have b: "\<not> NewerThan (lookup0 (global m) n) old \<and> Flags old AND FlagDeleted \<noteq> 0 \<Longrightarrow>
           map_of (local (ReplaceLocal now fs m)) n = Some old"
    using nl assms(2) by (auto simp: local_ReplaceLocal kept_def)
  have c: "NewerThan (lookup0 (global m) n) old \<and>
          (\<forall>f \<in> set fs. map_of (local m) (Name f) = None \<longrightarrow>
             \<not> (Modified f = 0 \<and> Version f = 0)) \<Longrightarrow>
           map_of (local (ReplaceLocal now fs m)) n = None"
    using ReplaceLocal_drops_newer[OF assms] by blast
  show ?thesis using a b c by (simp add: tombstone_def)
qed

theorem ReplaceLocal_omitted_name_witness:
  "wf_map (local exStale) \<and> map_of (local exStale) ''a'' = Some exLocalA \<and>
   ''a'' \<notin> Name ` set [] \<and>
   \<not> NewerThan (lookup0 (global exStale) ''a'') exLocalA \<and> Flags exLocalA AND FlagDeleted = 0 \<and>
   map_of (local (ReplaceLocal 3000000000 [] exStale)) ''a'' =
     Some (exLocalA\<lparr>Flags := FlagDeleted, Version := Version exLocalA + 1, Blocks := []\<rparr>) \<and>
   wf_map (local exTomb) \<and> map_of (local exTomb) ''a'' = Some exDeletedA \<and>
   \<not> NewerThan (lookup0 (global exTomb) ''a'') exDeletedA \<and>
   Flags exDeletedA AND FlagDeleted \<noteq> 0 \<and>
   map_of (local (ReplaceLocal 3000000000 [] exTomb)) ''a'' = Some exDeletedA \<and>
   wf_map (local exBehind) \<and> map_of (local exBehind) ''a'' = Some exLocalA \<and>
   ''a'' \<notin> Name ` set [exFileB] \<and>
   NewerThan (lookup0 (global exBehind) ''a'') exLocalA \<and>
   map_of (local exBehind) (Name exFileB) = None \<and> Modified exFileB \<noteq> 0 \<and>
   map_of (local (ReplaceLocal 3000000000 [exFileB] exBehind)) ''a'' = None"
proof -
  have n: "''a'' \<notin> Name ` set []" by simp
  have n3: "''a'' \<notin> Name ` set [exFileB]" by (simp add: exFileB_def)
  have w1: "wf_map (local exStale)" and l1: "map_of (local exStale) ''a'' = Some exLocalA"
    and a1: "\<not> NewerThan (lookup0 (global exStale) ''a'') exLocalA \<and>
             Flags exLocalA AND FlagDeleted = 0"
    by (simp_all add: ex_defs model_defs)
  have w2: "wf_map (local exTomb)" and l2: "map_of (local exTomb) ''a'' = Some exDeletedA"
    and a2: "\<not> NewerThan (lookup0 (global exTomb) ''a'') exDeletedA \<and>
             Flags exDeletedA AND FlagDeleted \<noteq> 0"
    by (simp_all add: exTomb_eq exDeletedA_def model_defs)
  have w3: "wf_map (local exBehind)" and l3: "map_of (local exBehind) ''a'' = Some exLocalA"
    and g3: "NewerThan (lookup0 (global exBehind) ''a'') exLocalA"
    and b3: "map_of (local exBehind) (Name exFileB) = None \<and> Modified exFileB \<noteq> 0"
    by (simp_all add: exFileB_def ex_defs model_defs)
  have a3: "NewerThan (lookup0 (global exBehind) ''a'') exLocalA \<and>
    (\<forall>f \<in> set [exFileB]. map_of (local exBehind) (Name f) = None \<longrightarrow>
       \<not> (Modified f = 0 \<and> Version f = 0))"
    using g3 b3 by simp
  note i1 = ReplaceLocal_omitted_name[OF w1 l1 n, of 3000000000]
  note i2 = ReplaceLocal_omitted_name[OF w2 l2 n, of 3000000000]
  note i3 = ReplaceLocal_omitted_name[OF w3 l3 n3, of 3000000000]
  have c1: "map_of (local (ReplaceLocal 3000000000 [] exStale)) ''a'' =
     Some (exLocalA\<lparr>Flags := FlagDeleted, Version := Version exLocalA + 1, Blocks := []\<rparr>)"
    by (rule i1[THEN conjunct1, THEN mp, OF a1])
  have c2: "map_of (local (ReplaceLocal 3000000000 [] exTomb)) ''a'' = Some exDeletedA"
    by (rule i2[THEN conjunct2, THEN conjunct1, THEN mp, OF a2])
  have c3: "map_of (local (ReplaceLocal 3000000000 [exFileB] exBehind)) ''a'' = None"
    by (rule i3[THEN conjunct2, THEN conjunct2, THEN mp, OF a3])
  show ?thesis
    using n n3 w1 l1 a1 c1 w2 l2 a2 c2 w3 l3 g3 b3 c3 by (intro conjI) (simp_all only: simp_thms)
qed

text \<open>
  The claim as first stated promises a version incremented by one for every omitted
  name whose global record is not newer. In \<open>exTomb\<close> the omitted name \<open>a\<close> is a
  tombstone of version 1 already; after \<open>ReplaceLocal\<close> its version is still 1.
\<close>

theorem ReplaceLocal_no_second_increment_counterexample:
  "map_of (local exTomb) ''a'' = Some exDeletedA \<and> ''a'' \<notin> Name ` set [] \<and>
   \<not> NewerThan (lookup0 (global exTomb) ''a'') exDeletedA \<and>
   map_of (local (ReplaceLocal 3000000000 [] exTomb)) ''a'' = Some exDeletedA \<and>
   Version exDeletedA \<noteq> Version exDeletedA + 1"
  by (simp add: exTomb_eq exDeletedA_def model_defs)

section \<open>Scanning twice\<close>

lemma globalUpdated_False_conv:
  assumes "\<not> globalUpdated ng old" "(n, x) \<in> set ng"
  shows "\<exists>g. map_of old n = Some g \<and> Equals x g"
  using assms by (auto simp: globalUpdated_def list_ex_iff split: option.splits)

lemma wf_recomputeGlobal: "wf_model m \<Longrightarrow> wf_model (recomputeGlobal now m)"
  by (auto simp: wf_model_def recomputeGlobal_def Let_def wf_buildGlobal)

lemma wf_need_fold:
  "wf_map acc \<Longrightarrow>
   wf_map (fold (\<lambda>(n, gf) nd. if needs m n gf then AList.update n True nd else nd) gs acc)"
  by (induction gs arbitrary: acc) (auto simp: wf_map_def distinct_update)

lemma wf_recomputeNeed: "wf_model m \<Longrightarrow> wf_model (recomputeNeed m)"
  using wf_need_fold[of "[]" m "global m"]
  by (simp add: wf_model_def recomputeNeed_def) (simp add: wf_map_def)

lemma wf_set_local: "wf_model m \<Longrightarrow> wf_map l \<Longrightarrow> wf_model (m\<lparr>local := l\<rparr>)"
  by (simp add: wf_model_def)

lemma wf_updateLocal: "wf_model m \<Longrightarrow> wf_model (updateLocal now f m)"
proof -
  assume w: "wf_model m"
  then have "wf_map (AList.update (Name f) f (local m))"
    by (simp add: wf_model_def wf_map_def distinct_update)
  from wf_recomputeNeed[OF wf_recomputeGlobal[OF wf_set_local[OF w this]]]
  have "wf_model (recomputeNeed (recomputeGlobal now (m\<lparr>local := AList.update (Name f) f (local m)\<rparr>)))" .
  then show ?thesis using w by (simp add: updateLocal_def Let_def wf_model_def)
qed

lemma remote_updateLocal [simp]: "remote (updateLocal now f m) = remote m"
  by (simp add: updateLocal_def Let_def)

lemma length_of_map_of:
  assumes "wf_map a" "wf_map b" "map_of a = map_of b"
  shows "length a = length b"
proof -
  have "fst ` set a = fst ` set b"
    using assms(3) by (metis dom_map_of_conv_image_fst)
  moreover have "card (fst ` set a) = length a" "card (fst ` set b) = length b"
    using assms(1,2) distinct_card[of "map fst a"] distinct_card[of "map fst b"]
    by (simp_all add: wf_map_def)
  ultimately show ?thesis by simp
qed

lemma kept_deleted: "kept glob n old = Some f \<Longrightarrow> Flags f AND FlagDeleted \<noteq> 0"
  by (auto simp: kept_def tombstone_def FlagDeleted_def split: if_splits)

text \<open>The representation invariant holds initially and every operation keeps it.\<close>

lemma wf_NewModel: "wf_model (NewModel d)"
  by (simp add: wf_model_def wf_map_def NewModel_def)

lemma wf_ReplaceLocal: "wf_model m \<Longrightarrow> wf_model (ReplaceLocal now fs m)"
proof -
  assume w: "wf_model m"
  from wf_recomputeNeed[OF wf_recomputeGlobal[OF wf_set_local[OF w wf_newLocal]]]
  have "wf_model (recomputeNeed (recomputeGlobal now (m\<lparr>local := snd (replaceScan fs m)\<rparr>)))" .
  then show ?thesis using w by (simp add: ReplaceLocal_alt wf_model_def)
qed

lemma wf_SeedLocal: "wf_model m \<Longrightarrow> wf_model (SeedLocal now fs m)"
proof -
  assume w: "wf_model m"
  have "wf_map (fold (\<lambda>f l. AList.update (fi_Name f) (fileFromFileInfo f) l) fs [])"
    by (rule fold_update_wf) (simp add: wf_map_def)
  from wf_recomputeNeed[OF wf_recomputeGlobal[OF wf_set_local[OF w this]]]
  show ?thesis by (simp add: SeedLocal_def)
qed

lemma set_update_subset: "set (AList.update k v al) \<subseteq> insert (k, v) (set al)"
  by (induction al) auto

lemma wf_set_remote:
  assumes "wf_model m" "wf_map fs"
  shows "wf_model (m\<lparr>remote := AList.update p fs (remote m)\<rparr>)"
proof -
  have "set (AList.update p fs (remote m)) \<subseteq> insert (p, fs) (set (remote m))"
    by (rule set_update_subset)
  then have "list_all (\<lambda>(p, fs). wf_map fs) (AList.update p fs (remote m))"
    using assms by (auto simp: wf_model_def list_all_iff)
  then show ?thesis using assms(1) by (simp add: wf_model_def wf_map_def distinct_update)
qed

lemma wf_Index: "wf_model m \<Longrightarrow> wf_model (Index now p fs m)"
proof -
  assume w: "wf_model m"
  have "wf_map (indexMap fs)"
    unfolding indexMap_def by (rule fold_update_wf) (simp add: wf_map_def)
  from wf_recomputeNeed[OF wf_recomputeGlobal[OF wf_set_remote[OF w this]]]
  show ?thesis by (simp add: Index_def)
qed

lemma wf_IndexUpdate: "wf_model m \<Longrightarrow> wf_model (IndexUpdate now p fs m)"
proof (cases "map_of (remote m) p")
  case None
  assume "wf_model m"
  with None show ?thesis by (simp add: IndexUpdate_def)
next
  case (Some repo)
  assume w: "wf_model m"
  from Some have "(p, repo) \<in> set (remote m)" by (rule map_of_SomeD)
  with w have "wf_map repo" by (auto simp: wf_model_def list_all_iff)
  then have "wf_map (fold (\<lambda>f r. AList.update (fi_Name f) (fileFromFileInfo f) r) fs repo)"
    by (rule fold_update_wf)
  from wf_recomputeNeed[OF wf_recomputeGlobal[OF wf_set_remote[OF w this]]]
  show ?thesis using Some by (simp add: IndexUpdate_def)
qed

lemma wf_Close: "wf_model m \<Longrightarrow> wf_model (Close now p m)"
proof -
  assume w: "wf_model m"
  have "set (AList.delete p (remote m)) \<subseteq> set (remote m)"
    by (auto simp: AList.delete_eq)
  then have "list_all (\<lambda>(p, fs). wf_map fs) (AList.delete p (remote m))"
    using w by (auto simp: wf_model_def list_all_iff)
  then have "wf_model (m\<lparr>remote := AList.delete p (remote m)\<rparr>)"
    using w by (simp add: wf_model_def wf_map_def distinct_delete)
  from wf_recomputeNeed[OF wf_recomputeGlobal[OF this]]
  show ?thesis by (simp add: Close_def)
qed

lemma merge_stays:
  "map_of g n = Some l \<Longrightarrow> \<exists>x. map_of (fold mergeEntry es g) n = Some x"
proof (induction es arbitrary: g l)
  case Nil
  then show ?case by simp
next
  case (Cons e es)
  obtain k nf where e: "e = (k, nf)" by (cases e)
  have "\<exists>y. map_of (mergeEntry e g) n = Some y"
    using Cons.prems e by (simp add: map_of_mergeEntry)
  then obtain y where "map_of (mergeEntry e g) n = Some y" by blast
  from Cons.IH[OF this] show ?case by simp
qed

lemma buildGlobal_has_local:
  assumes "wf_model m" "map_of (local m) n = Some l"
  shows "\<exists>x. map_of (buildGlobal m) n = Some x"
proof -
  have "buildGlobal m = fold mergeEntry (concat (map snd (remote m))) (local m)"
    using assms(1) by (simp add: buildGlobal_def mergeRemotes_concat seedGlobal_id wf_model_def)
  with merge_stays[OF assms(2)] show ?thesis by simp
qed

lemma recomputeGlobal_Equals:
  assumes "map_of (buildGlobal m) n = Some x"
  shows "\<exists>g. map_of (global (recomputeGlobal now m)) n = Some g \<and> Equals x g"
proof (cases "globalUpdated (buildGlobal m) (global m)")
  case True
  then show ?thesis using assms by (simp add: recomputeGlobal_def Let_def Equals_def)
next
  case False
  have "(n, x) \<in> set (buildGlobal m)" using assms by (rule map_of_SomeD)
  from globalUpdated_False_conv[OF False this] False show ?thesis
    by (simp add: recomputeGlobal_def Let_def)
qed

lemma not_newer_after_recompute:
  assumes "wf_model m" "map_of (local m) n = Some l"
    "list_all (\<lambda>r. \<not> NewerThan r l) (remoteRecords m n)"
  shows "\<not> NewerThan (lookup0 (global (recomputeGlobal now m)) n) l"
proof -
  have "map_of (buildGlobal m) n = Some l" by (rule buildGlobal_local[OF assms])
  from recomputeGlobal_Equals[OF this, of now] obtain g where
    "map_of (global (recomputeGlobal now m)) n = Some g" "Equals l g" by blast
  then show ?thesis by (auto simp: lookup0_def Equals_def NewerThan_def)
qed

lemma not_NewerThan_trans:
  assumes "\<not> NewerThan r x" "\<not> NewerThan x l"
  shows "\<not> NewerThan r l"
proof -
  from assms(1) have a: "Modified r < Modified x \<or> (Modified r = Modified x \<and> Version r \<le> Version x)"
    by (auto simp: NewerThan_def not_less)
  from assms(2) have b: "Modified x < Modified l \<or> (Modified x = Modified l \<and> Version x \<le> Version l)"
    by (auto simp: NewerThan_def not_less)
  from a b have "Modified r < Modified l \<or> (Modified r = Modified l \<and> Version r \<le> Version l)"
    by auto
  then show ?thesis by (auto simp: NewerThan_def)
qed

lemma remotes_not_newer:
  assumes "wf_model m" "map_of (local m) n = Some l"
    "\<not> NewerThan (lookup0 (global (recomputeGlobal now m)) n) l"
  shows "list_all (\<lambda>r. \<not> NewerThan r l) (remoteRecords m n)"
proof -
  from buildGlobal_has_local[OF assms(1,2)] obtain x where x: "map_of (buildGlobal m) n = Some x"
    by blast
  from recomputeGlobal_Equals[OF x, of now] obtain g where
    g: "map_of (global (recomputeGlobal now m)) n = Some g" "Equals x g" by blast
  have xl: "\<not> NewerThan x l" using assms(3) g by (auto simp: lookup0_def Equals_def NewerThan_def)
  have "newestAmong (candidates m n) x" by (rule buildGlobal_newest[OF assms(1) x])
  then have "\<And>r. r \<in> set (remoteRecords m n) \<Longrightarrow> \<not> NewerThan r x"
    by (simp add: newestAmong_def candidates_def list_all_iff)
  then have "\<And>r. r \<in> set (remoteRecords m n) \<Longrightarrow> \<not> NewerThan r l"
    using xl not_NewerThan_trans by blast
  then show ?thesis by (simp add: list_all_iff)
qed

lemma not_newer_tombstone:
  assumes "\<not> NewerThan r old" "Version old + 1 \<noteq> 0"
  shows "\<not> NewerThan r (tombstone old)"
proof -
  have "Version old \<noteq> - 1" using assms(2) by auto
  then have "\<not> Version old + 1 \<le> Version old" by (simp add: inc_less_eq_self_iff_eq)
  then have "Version old < Version old + 1" by simp
  then show ?thesis using assms(1) by (auto simp: NewerThan_def tombstone_def)
qed

lemma remoteRecords_set_local [simp]: "remoteRecords (m\<lparr>local := l\<rparr>) n = remoteRecords m n"
  by (simp add: remoteRecords_def)

lemma fsMap_last:
  assumes "f \<in> set fs"
  shows "\<exists>g \<in> set fs. Name g = Name f \<and> map_of (fsMap fs) (Name f) = Some g"
proof -
  have "Name f \<in> fst ` set (fsMap fs)" using assms by (simp add: fsMap_keys)
  then obtain g where g: "map_of (fsMap fs) (Name f) = Some g"
    by (metis map_of_eq_None_iff not_None_eq)
  then have "map_of (rev (map (\<lambda>f. (Name f, f)) fs)) (Name f) = Some g"
    using fold_update_lookup[of Name "\<lambda>f. f" fs "[]" "Name f"]
    by (simp add: fsMap_def split: option.splits)
  then have "(Name f, g) \<in> set (rev (map (\<lambda>f. (Name f, f)) fs))" by (rule map_of_SomeD)
  then have "g \<in> set fs" "Name g = Name f" by auto
  with g show ?thesis by blast
qed

lemma ReplaceLocal_twice_general:
  assumes "wf_model m"
    and dup: "\<forall>x \<in> set fs. \<forall>y \<in> set fs. Name x = Name y \<longrightarrow> Equals x y"
    and rem: "\<And>n old l'. map_of (local m) n = Some old \<Longrightarrow> n \<notin> Name ` set fs \<Longrightarrow>
                kept (global m) n old = Some l' \<Longrightarrow>
                list_all (\<lambda>r. \<not> NewerThan r l') (remoteRecords m n)"
  shows "ReplaceLocal t3 fs (ReplaceLocal t2 fs m) = ReplaceLocal t2 fs m"
proof (cases "fst (replaceScan fs m)")
  case False
  then show ?thesis by (simp add: ReplaceLocal_unchanged)
next
  case True
  define nl where "nl = snd (replaceScan fs m)"
  define m2 where "m2 = ReplaceLocal t2 fs m"
  define g2 where "g2 = global (recomputeGlobal t2 (m\<lparr>local := nl\<rparr>))"
  have wl: "wf_map (local m)" using assms(1) by (simp add: wf_model_def)
  have wnl: "wf_map nl" unfolding nl_def by (rule wf_newLocal)
  have dnl: "distinct (map fst nl)" using wnl by (simp add: wf_map_def)
  have wm: "wf_model (m\<lparr>local := nl\<rparr>)" by (rule wf_set_local[OF assms(1) wnl])
  have l2: "local m2 = nl" and gl2: "global m2 = g2"
    using True by (simp_all add: m2_def g2_def nl_def ReplaceLocal_alt)
  have nl_lookup: "\<And>n. map_of nl n =
     (case map_of (fsMap fs) n of Some x \<Rightarrow> Some x
      | None \<Rightarrow> (case map_of (local m) n of None \<Rightarrow> None | Some f \<Rightarrow> kept (global m) n f))"
    unfolding nl_def by (rule newLocal_lookup[OF wl])
  have g2_ok: "\<not> NewerThan (lookup0 g2 n) l"
    if l: "map_of nl n = Some l" and none: "map_of (fsMap fs) n = None" for n l
  proof -
    from none have nfs: "n \<notin> Name ` set fs"
      using fsMap_keys[of fs] by (simp add: map_of_eq_None_iff)
    from l none nl_lookup[of n] obtain old where
      old: "map_of (local m) n = Some old" "kept (global m) n old = Some l"
      by (auto split: option.splits)
    have "list_all (\<lambda>r. \<not> NewerThan r l) (remoteRecords (m\<lparr>local := nl\<rparr>) n)"
      using rem[OF old(1) nfs old(2)] by simp
    from not_newer_after_recompute[OF wm _ this, of t2] l show ?thesis
      by (simp add: g2_def)
  qed
  have del: "\<And>n f. map_of nl n = Some f \<Longrightarrow> map_of (fsMap fs) n = None \<Longrightarrow>
                Flags f AND FlagDeleted \<noteq> 0"
    using nl_lookup kept_deleted by (auto split: option.splits)
  have p1: "\<not> (\<exists>f \<in> set fs. \<not> Equals (lookup0 nl (Name f)) f)"
  proof -
    have "Equals (lookup0 nl (Name f)) f" if f: "f \<in> set fs" for f
    proof -
      from fsMap_last[OF f] obtain g where
        g: "g \<in> set fs" "Name g = Name f" "map_of (fsMap fs) (Name f) = Some g" by blast
      then have "lookup0 nl (Name f) = g" using nl_lookup[of "Name f"] by (simp add: lookup0_def)
      moreover have "Equals g f" using dup g(1,2) f by blast
      ultimately show ?thesis by simp
    qed
    then show ?thesis by blast
  qed
  have p2: "\<not> fst (fold (markStep g2) nl (False, fsMap fs))"
  proof -
    have "\<And>n f. (n, f) \<in> set nl \<Longrightarrow> map_of (fsMap fs) n = None \<Longrightarrow> Flags f AND FlagDeleted \<noteq> 0"
      using del dnl by (metis map_of_is_SomeI)
    then show ?thesis unfolding markFold_flag[OF dnl] by auto
  qed
  have p3: "length (snd (fold (markStep g2) nl (False, fsMap fs))) = length nl"
  proof (rule length_of_map_of)
    show "wf_map (snd (fold (markStep g2) nl (False, fsMap fs)))" by (rule wf_markFold[OF fsMap_wf])
    show "wf_map nl" by (rule wnl)
    show "map_of (snd (fold (markStep g2) nl (False, fsMap fs))) = map_of nl"
    proof
      fix n
      show "map_of (snd (fold (markStep g2) nl (False, fsMap fs))) n = map_of nl n"
      proof (cases "map_of (fsMap fs) n")
        case (Some x)
        then show ?thesis unfolding markFold_lookup[OF dnl] using nl_lookup[of n] by simp
      next
        case None
        show ?thesis
        proof (cases "map_of nl n")
          case N: None
          then show ?thesis unfolding markFold_lookup[OF dnl] using None by simp
        next
          case (Some f)
          from g2_ok[OF Some None] del[OF Some None] have "kept g2 n f = Some f"
            by (simp add: kept_def)
          then show ?thesis unfolding markFold_lookup[OF dnl] using None Some by simp
        qed
      qed
    qed
  qed
  have "\<not> fst (replaceScan fs m2)"
    using p1 p2 p3 by (simp add: replaceScan_eq l2 gl2)
  then show ?thesis unfolding m2_def[symmetric] by (rule ReplaceLocal_unchanged)
qed

text \<open>
  C8 (as amended). Let a new file \<open>f\<close> be added with \<open>updateLocal\<close>, and let
  \<open>ReplaceLocal(fs)\<close> follow with a list \<open>fs\<close> that lacks \<open>f\<close>, which tombstones it: \<open>f\<close>
  does not carry the DELETED flag and no peer holds a record of that name that is
  \<open>NewerThan\<close> \<open>f\<close>. Let the elements of \<open>fs\<close> that share a name share their
  \<open>(modified, version)\<close> pair, and let no record that \<open>fs\<close> omits, and of whose name a
  peer holds a record, have the version \<open>2\<^sup>3\<^sup>2 - 1\<close>. Then \<open>local\<close> holds the
  tombstone of \<open>f\<close> (DELETED, version plus one, no blocks, \<open>modified\<close> unchanged), and a
  second \<open>ReplaceLocal(fs)\<close> with the same list returns the state as it is: \<open>local\<close>,
  \<open>global\<close>, \<open>need\<close>, \<open>updatedLocal\<close> and \<open>lastIdxBcastRequest\<close> are unchanged, and
  the version of the tombstone is not incremented again.
\<close>

theorem ReplaceLocal_again_noop:
  assumes "wf_model m"
    and "map_of (local m) (Name f) = None" and "Name f \<notin> Name ` set fs"
    and "Flags f AND FlagDeleted = 0"
    and "list_all (\<lambda>r. \<not> NewerThan r f) (remoteRecords m (Name f))"
    and "\<forall>x \<in> set fs. \<forall>y \<in> set fs. Name x = Name y \<longrightarrow> Equals x y"
    and "remoteRecords m (Name f) \<noteq> [] \<longrightarrow> Version f + 1 \<noteq> 0"
    and "\<forall>(n, l) \<in> set (local m). n \<notin> Name ` set fs \<and> remoteRecords m n \<noteq> [] \<longrightarrow> Version l + 1 \<noteq> 0"
  shows "map_of (local (ReplaceLocal t2 fs (updateLocal t1 f m))) (Name f) =
           Some (f\<lparr>Flags := FlagDeleted, Version := Version f + 1, Blocks := []\<rparr>) \<and>
         ReplaceLocal t3 fs (ReplaceLocal t2 fs (updateLocal t1 f m)) =
           ReplaceLocal t2 fs (updateLocal t1 f m)"
proof -
  define m1 where "m1 = updateLocal t1 f m"
  define m0 where "m0 = m\<lparr>local := AList.update (Name f) f (local m)\<rparr>"
  have w1: "wf_model m1" unfolding m1_def using assms(1) by (rule wf_updateLocal)
  have w0: "wf_model m0"
    unfolding m0_def using assms(1)
    by (intro wf_set_local) (simp_all add: wf_model_def wf_map_def distinct_update)
  have lf: "map_of (local m0) (Name f) = Some f" by (simp add: m0_def update_conv')
  have l0: "\<And>n. n \<noteq> Name f \<Longrightarrow> map_of (local m0) n = map_of (local m) n"
    by (simp add: m0_def update_conv')
  have rr: "\<And>n. remoteRecords m0 n = remoteRecords m n" by (simp add: m0_def)
  have l1: "local m1 = local m0" and g1: "global m1 = global (recomputeGlobal t1 m0)"
    and r1: "\<And>n. remoteRecords m1 n = remoteRecords m n"
    using assms(2) by (simp_all add: m1_def m0_def updateLocal_def Let_def remoteRecords_def)
  have a: "map_of (local m1) (Name f) = Some f" using lf l1 by simp
  have b: "\<not> NewerThan (lookup0 (global m1) (Name f)) f"
    unfolding g1 using assms(5) by (intro not_newer_after_recompute[OF w0 lf]) (simp add: rr)
  have wl1: "wf_map (local m1)" using w1 by (simp add: wf_model_def)
  have tomb: "map_of (local (ReplaceLocal t2 fs m1)) (Name f) = Some (tombstone f)"
    by (rule ReplaceLocal_tombstones[OF wl1 a assms(3) b assms(4)])
  have rem: "list_all (\<lambda>r. \<not> NewerThan r l') (remoteRecords m1 n)"
    if old: "map_of (local m1) n = Some old" and nfs: "n \<notin> Name ` set fs"
      and k: "kept (global m1) n old = Some l'" for n old l'
  proof (cases "remoteRecords m n = []")
    case True
    then show ?thesis by (simp add: r1)
  next
    case False
    from k have nn: "\<not> NewerThan (lookup0 (global m1) n) old"
      and l': "l' = (if Flags old AND FlagDeleted = 0 then tombstone old else old)"
      by (auto simp: kept_def split: if_splits)
    have old0: "map_of (local m0) n = Some old" using old l1 by simp
    have base: "list_all (\<lambda>r. \<not> NewerThan r old) (remoteRecords m n)"
      using remotes_not_newer[OF w0 old0, of t1] nn by (simp add: g1 rr)
    have nowrap: "Version old + 1 \<noteq> 0"
    proof (cases "n = Name f")
      case True
      with old0 lf have "old = f" by simp
      with assms(7) False True show ?thesis by simp
    next
      case F: False
      with old0 l0 have "map_of (local m) n = Some old" by simp
      then have "(n, old) \<in> set (local m)" by (rule map_of_SomeD)
      with assms(8) nfs False show ?thesis by blast
    qed
    have "list_all (\<lambda>r. \<not> NewerThan r l') (remoteRecords m n)"
      using base nowrap l' by (auto simp: list_all_iff not_newer_tombstone)
    then show ?thesis by (simp add: r1)
  qed
  have "ReplaceLocal t3 fs (ReplaceLocal t2 fs m1) = ReplaceLocal t2 fs m1"
    by (rule ReplaceLocal_twice_general[OF w1 assms(6) rem])
  with tomb show ?thesis by (simp add: m1_def tombstone_def)
qed

theorem ReplaceLocal_again_noop_witness:
  "wf_model exPeered \<and> map_of (local exPeered) (Name exLocalA) = None \<and>
   Name exLocalA \<notin> Name ` set [exFileB, exFileB'] \<and> Flags exLocalA AND FlagDeleted = 0 \<and>
   remoteRecords exPeered (Name exLocalA) = [exRemoteA] \<and> \<not> NewerThan exRemoteA exLocalA \<and>
   Name exFileB = Name exFileB' \<and> Equals exFileB exFileB' \<and>
   Version exLocalA + 1 \<noteq> 0 \<and>
   remoteRecords exPeered ''c'' \<noteq> [] \<and> Version exTwoBlocks + 1 \<noteq> 0 \<and>
   map_of (local (ReplaceLocal 3000000000 [exFileB, exFileB'] (updateLocal 2000000000 exLocalA exPeered)))
       (Name exLocalA) =
     Some (exLocalA\<lparr>Flags := FlagDeleted, Version := Version exLocalA + 1, Blocks := []\<rparr>) \<and>
   ReplaceLocal 4000000000 [exFileB, exFileB']
       (ReplaceLocal 3000000000 [exFileB, exFileB'] (updateLocal 2000000000 exLocalA exPeered)) =
     ReplaceLocal 3000000000 [exFileB, exFileB'] (updateLocal 2000000000 exLocalA exPeered)"
proof -
  have h1: "wf_model exPeered" by (simp add: ex2_defs ex_defs wf_model_def wf_map_def)
  have h2: "map_of (local exPeered) (Name exLocalA) = None" by (simp add: ex2_defs ex_defs)
  have h3: "Name exLocalA \<notin> Name ` set [exFileB, exFileB']" by (simp add: ex2_defs ex_defs)
  have h4: "Flags exLocalA AND FlagDeleted = 0" by (simp add: ex_defs FlagDeleted_def)
  have r: "remoteRecords exPeered (Name exLocalA) = [exRemoteA] \<and> \<not> NewerThan exRemoteA exLocalA"
    by (simp add: ex2_defs ex_defs remoteRecords_def NewerThan_def)
  then have h5: "list_all (\<lambda>r. \<not> NewerThan r exLocalA) (remoteRecords exPeered (Name exLocalA))"
    by simp
  have d: "Name exFileB = Name exFileB' \<and> Equals exFileB exFileB'"
    by (simp add: ex2_defs Equals_def)
  then have h6: "\<forall>x \<in> set [exFileB, exFileB']. \<forall>y \<in> set [exFileB, exFileB'].
      Name x = Name y \<longrightarrow> Equals x y"
    by (simp add: Equals_def)
  have v: "Version exLocalA + 1 \<noteq> 0" by (simp add: ex_defs)
  then have h7: "remoteRecords exPeered (Name exLocalA) \<noteq> [] \<longrightarrow> Version exLocalA + 1 \<noteq> 0"
    by simp
  have c: "remoteRecords exPeered ''c'' \<noteq> [] \<and> Version exTwoBlocks + 1 \<noteq> 0"
    by (simp add: ex2_defs ex_defs remoteRecords_def)
  have h8: "\<forall>(n, l) \<in> set (local exPeered).
      n \<notin> Name ` set [exFileB, exFileB'] \<and> remoteRecords exPeered n \<noteq> [] \<longrightarrow> Version l + 1 \<noteq> 0"
    by (simp add: ex2_defs ex_defs)
  note t = ReplaceLocal_again_noop[OF h1 h2 h3 h4 h5 h6 h7 h8, of 3000000000 2000000000 4000000000]
  show ?thesis
    using h1 h2 h3 h4 r d v c t by (intro conjI) (simp_all only: simp_thms)
qed

text \<open>
  Without the two conditions the second call is not a no-op. When the peer \<open>p\<close> holds
  \<open>a\<close> at version 7 and the new file \<open>a\<close> has version \<open>2\<^sup>3\<^sup>2 - 1\<close>, the version of
  the tombstone wraps to 0, the record of the peer becomes the newer one, and the
  second scan drops the tombstone from \<open>local\<close>. When the list names \<open>b\<close> twice, at
  versions 0 and 1, the second scan sees a change and sets \<open>updatedLocal\<close> anew.
\<close>

theorem ReplaceLocal_again_counterexample:
  "map_of (local exPeerHolds) (Name exWrapA) = None \<and> Name exWrapA \<notin> Name ` set [] \<and>
   local (ReplaceLocal 3000000000 [] (updateLocal 2000000000 exWrapA exPeerHolds)) =
     [(''a'', exWrapA\<lparr>Flags := FlagDeleted, Version := 0, Blocks := []\<rparr>)] \<and>
   local (ReplaceLocal 4000000000 []
     (ReplaceLocal 3000000000 [] (updateLocal 2000000000 exWrapA exPeerHolds))) = [] \<and>
   map_of (local (NewModel ''repo'')) (Name exLocalA) = None \<and>
   Name exLocalA \<notin> Name ` set [exFileB, exFileB1] \<and>
   updatedLocal (ReplaceLocal 3000000000 [exFileB, exFileB1]
     (updateLocal 2000000000 exLocalA (NewModel ''repo''))) = 3 \<and>
   updatedLocal (ReplaceLocal 4000000000 [exFileB, exFileB1]
     (ReplaceLocal 3000000000 [exFileB, exFileB1]
       (updateLocal 2000000000 exLocalA (NewModel ''repo'')))) = 4"
  by (simp add: ex2_defs ex_defs model_defs)

section \<open>Updating one local record\<close>

text \<open>
  C10. When \<open>local\<close> already holds a record for \<open>f.Name\<close> with the same
  \<open>(modified, version)\<close> pair as \<open>f\<close>, \<open>updateLocal(f)\<close> returns the model state
  unchanged: \<open>local\<close> with the stored flags and block list, \<open>global\<close>, \<open>need\<close>,
  \<open>updatedLocal\<close> and \<open>lastIdxBcastRequest\<close>, whatever the flags and the block list of
  \<open>f\<close> are.
\<close>

theorem updateLocal_same_version_noop:
  assumes "map_of (local m) (Name f) = Some ef"
    and "Modified ef = Modified f" and "Version ef = Version f"
  shows "updateLocal now f m = m"
  using assms by (simp add: updateLocal_def lookup0_def Equals_def)

theorem updateLocal_same_version_noop_witness:
  "map_of (local exStale) (Name exRemoteA) = Some exLocalA \<and>
   Modified exLocalA = Modified exRemoteA \<and> Version exLocalA = Version exRemoteA \<and>
   Flags exLocalA \<noteq> Flags exRemoteA \<and> Blocks exLocalA \<noteq> Blocks exRemoteA \<and>
   updateLocal 3000000000 exRemoteA exStale = exStale"
proof -
  have h1: "map_of (local exStale) (Name exRemoteA) = Some exLocalA" by (simp add: ex_defs)
  have h2: "Modified exLocalA = Modified exRemoteA" by (simp add: ex_defs)
  have h3: "Version exLocalA = Version exRemoteA" by (simp add: ex_defs)
  have h4: "Flags exLocalA \<noteq> Flags exRemoteA \<and> Blocks exLocalA \<noteq> Blocks exRemoteA"
    by (simp add: ex_defs)
  from updateLocal_same_version_noop[OF h1 h2 h3] h1 h2 h3 h4 show ?thesis by blast
qed

section \<open>The generation counter\<close>

text \<open>
  C5. \<open>Generation\<close> is meant to grow with every mutation that changes an observable
  field. The code does not achieve it. Two calls of \<open>updateLocal\<close> within one second of
  the clock change \<open>local\<close> and \<open>global\<close> and leave \<open>Generation\<close> at 200; and a
  \<open>SeedLocal\<close> that changes the flags and blocks of a record but not its
  \<open>(modified, version)\<close> pair changes \<open>local\<close> and leaves \<open>Generation\<close> at 100,
  whatever the clock says.
\<close>

theorem Generation_not_strict:
  "Generation exFirst = 200 \<and>
   local (updateLocal 100500000000 exFileB exFirst) \<noteq> local exFirst \<and>
   global (updateLocal 100500000000 exFileB exFirst) \<noteq> global exFirst \<and>
   Generation (updateLocal 100500000000 exFileB exFirst) = 200 \<and>
   Generation exSeeded = 100 \<and>
   local (SeedLocal 900000000000 [fileInfoFromFile exLocalA] exSeeded) \<noteq> local exSeeded \<and>
   Generation (SeedLocal 900000000000 [fileInfoFromFile exLocalA] exSeeded) = 100"
  by (simp add: exFirst_def exSeeded_def exFileB_def ex_defs model_defs SeedLocal_def Generation_def int64_def)

theorem Generation_not_strict_witness:
  "\<not> Generation exFirst < Generation (updateLocal 100500000000 exFileB exFirst) \<and>
   \<not> Generation exSeeded < Generation (SeedLocal 900000000000 [fileInfoFromFile exLocalA] exSeeded)"
  using Generation_not_strict by simp

section \<open>The round trip through the protocol record\<close>

lemma fold_snoc_map: "fold (\<lambda>b blocks. blocks @ [g b]) bs acc = acc @ map g bs"
  by (induction bs arbitrary: acc) auto

lemma fi_Blocks_fileInfoFromFile: "fi_Blocks (fileInfoFromFile f) = map toInfo (Blocks f)"
  using fold_snoc_map[of toInfo "Blocks f" "[]"]
  by (simp add: fileInfoFromFile_def toInfo_def[abs_def])

lemma unat_next_offset:
  "unat (w + ucast (l :: 32 word) :: 64 word) = (unat w + unat l) mod 2 ^ 64"
proof -
  have "unat (ucast l :: 64 word) = unat l"
    by (simp add: unsigned_ucast_eq take_bit_nat_eq_self unsigned_less[of l, where 'a = nat, simplified] order_less_trans[OF unsigned_less[of l, where 'a = nat]])
  then show ?thesis by (simp add: unat_word_ariths)
qed

lemma fromInfo_roundtrip:
  "prefixSumsFrom a bs \<Longrightarrow> a mod 2 ^ 64 = unat (w :: 64 word) \<Longrightarrow>
   fst (fold fromInfoStep (map toInfo bs) (acc, w)) = acc @ bs"
proof (induction bs arbitrary: a w acc)
  case Nil
  then show ?case by simp
next
  case (Cons b bs)
  from Cons.prems(1) have off: "unat (Offset b) = a"
    and rest: "prefixSumsFrom (a + unat (Length b)) bs" by simp_all
  have "a < 2 ^ 64" using off unsigned_less[of "Offset b", where 'a = nat] by simp
  with Cons.prems(2) off have w: "w = Offset b" by (simp add: word_unat_eq_iff)
  have step: "fromInfoStep (toInfo b) (acc, w) = (acc @ [b], w + ucast (Length b))"
    using w by (simp add: fromInfoStep_def toInfo_def)
  have nxt: "(a + unat (Length b)) mod 2 ^ 64 = unat (w + ucast (Length b))"
    using w off by (simp add: unat_next_offset)
  have "fst (fold fromInfoStep (map toInfo bs) (acc @ [b], w + ucast (Length b))) = (acc @ [b]) @ bs"
    by (rule Cons.IH[OF rest nxt])
  then show ?case by (simp add: step)
qed

text \<open>
  C9. For every \<open>File\<close> whose block offsets are the prefix sums of its block lengths,
  \<open>fileFromFileInfo (fileInfoFromFile f)\<close> is \<open>f\<close>: name, flags, modified, version and
  the length and hash of every block are preserved, and the offsets are regenerated
  as the prefix sums of the lengths.
\<close>

theorem fileInfo_roundtrip:
  assumes "prefixSumsFrom 0 (Blocks f)"
  shows "fileFromFileInfo (fileInfoFromFile f) = f"
proof -
  have "fst (fold fromInfoStep (map toInfo (Blocks f)) ([], 0)) = [] @ Blocks f"
    by (rule fromInfo_roundtrip[OF assms]) simp
  then have "Blocks (fileFromFileInfo (fileInfoFromFile f)) = Blocks f"
    by (simp add: fileFromFileInfo_def fi_Blocks_fileInfoFromFile)
  moreover have "Name (fileFromFileInfo (fileInfoFromFile f)) = Name f"
    "Flags (fileFromFileInfo (fileInfoFromFile f)) = Flags f"
    "Modified (fileFromFileInfo (fileInfoFromFile f)) = Modified f"
    "Version (fileFromFileInfo (fileInfoFromFile f)) = Version f"
    by (simp_all add: fileFromFileInfo_def fileInfoFromFile_def)
  ultimately show ?thesis by simp
qed

theorem fileInfo_roundtrip_witness:
  "prefixSumsFrom 0 (Blocks exTwoBlocks) \<and> fileFromFileInfo (fileInfoFromFile exTwoBlocks) = exTwoBlocks"
proof -
  have h: "prefixSumsFrom 0 (Blocks exTwoBlocks)"
    by (simp add: exTwoBlocks_def exBlock2_def exBlock_def)
  from fileInfo_roundtrip[OF h] h show ?thesis by blast
qed

section \<open>The suppression law\<close>

lemma threshold_sint:
  assumes "- (2 ^ 63) \<le> (sint (c :: 64 word) + 2) * 60 * 1000000000"
    and "(sint c + 2) * 60 * 1000000000 < 2 ^ 63"
  shows "sint ((c + 2) * minFileHoldTimeS * Second) = (sint c + 2) * 60 * 1000000000"
proof -
  define x where "x = (sint c + 2) * 60 * 1000000000"
  have lo: "- (2 ^ 63) \<le> x" and hi: "x < 2 ^ 63" using assms by (simp_all only: x_def)
  have "(c + 2) * minFileHoldTimeS * Second = word_of_int x"
    by (simp add: minFileHoldTimeS_def Second_def x_def)
  moreover have "sint (word_of_int x :: 64 word) = signed_take_bit 63 x"
    by (simp only: sint_sbintrunc') simp
  moreover have "signed_take_bit 63 x = x"
    using lo hi by (rule signed_take_bit_int_eq_self)
  ultimately show ?thesis by (simp only: x_def)
qed

text \<open>
  C6 (as amended). For every elapsed time and every count such that
  \<open>(count + 2) \<times> 60\<close> seconds fit a signed 64-bit number of nanoseconds, the decision
  of \<open>shouldSuppressChange\<close> is: admit when the elapsed time exceeds 600 seconds;
  else suppress when it is less than \<open>(count + 2) \<times> 60\<close> seconds; else admit.
\<close>

theorem shouldSuppressChange_law:
  assumes "- (2 ^ 63) \<le> (sint numChanges + 2) * 60 * 1000000000"
    and "(sint numChanges + 2) * 60 * 1000000000 < 2 ^ 63"
  shows "shouldSuppressChange sinceLast numChanges =
           suppressionLaw (sint sinceLast) (sint numChanges)"
proof -
  have "sint (maxFileHoldTimeS * Second) = 600 * 1000000000"
    by (simp add: maxFileHoldTimeS_def Second_def)
  then show ?thesis
    using threshold_sint[OF assms]
    by (simp add: shouldSuppressChange_def suppressionLaw_def word_sless_alt)
qed

theorem shouldSuppressChange_law_witness:
  "- (2 ^ 63) \<le> (sint (1 :: 64 word) + 2) * 60 * 1000000000 \<and>
   (sint (1 :: 64 word) + 2) * 60 * 1000000000 < 2 ^ 63 \<and>
   shouldSuppressChange 179000000000 1 = suppressionLaw (sint (179000000000 :: 64 word)) (sint (1 :: 64 word)) \<and>
   shouldSuppressChange 179000000000 1 \<and> \<not> shouldSuppressChange 181000000000 1 \<and>
   \<not> shouldSuppressChange 601000000000 99"
proof -
  have h1: "- (2 ^ 63) \<le> (sint (1 :: 64 word) + 2) * 60 * 1000000000" by simp
  have h2: "(sint (1 :: 64 word) + 2) * 60 * 1000000000 < 2 ^ 63" by simp
  have h3: "shouldSuppressChange 179000000000 1 \<and> \<not> shouldSuppressChange 181000000000 1 \<and>
   \<not> shouldSuppressChange 601000000000 99"
    by (simp add: shouldSuppressChange_def Second_def minFileHoldTimeS_def maxFileHoldTimeS_def word_sless_alt)
  from shouldSuppressChange_law[OF h1 h2, of 179000000000] h1 h2 h3 show ?thesis by blast
qed

text \<open>
  Without the bound the law fails: for the count 153722866 the product
  \<open>(count + 2) \<times> 60 \<times> 10\<^sup>9\<close> exceeds \<open>2\<^sup>6\<^sup>3 - 1\<close> and wraps to a negative
  duration, so that a change one second after the last one is admitted.
\<close>

theorem shouldSuppressChange_overflow_counterexample:
  "sint (1000000000 :: 64 word) \<le> 600 * 1000000000 \<and>
   sint (1000000000 :: 64 word) < (sint (153722866 :: 64 word) + 2) * 60 * 1000000000 \<and>
   suppressionLaw (sint (1000000000 :: 64 word)) (sint (153722866 :: 64 word)) \<and>
   \<not> shouldSuppressChange 1000000000 153722866"
  by (simp add: shouldSuppressChange_def suppressionLaw_def Second_def minFileHoldTimeS_def
      maxFileHoldTimeS_def word_sless_alt)

section \<open>Requests\<close>

text \<open>
  C4. If the name is not a key of both the local and the global map, \<open>Request\<close>
  returns \<open>ErrNoSuchFile\<close> and no data, as for the name \<open>../escape\<close>, which no index
  holds; otherwise, if the local record for the name has the INVALID flag,
  \<open>Request\<close> returns \<open>ErrInvalid\<close> and no data.
\<close>

theorem Request_rejects:
  "(map_of (local m) name = None \<or> map_of (global m) name = None \<longrightarrow>
      Request readAt m nodeID name offset size' hash = Inl ErrNoSuchFile) \<and>
   (map_of (local m) name = Some lf \<and> map_of (global m) name \<noteq> None \<and>
    Flags lf AND FlagInvalid \<noteq> 0 \<longrightarrow>
      Request readAt m nodeID name offset size' hash = Inl ErrInvalid)"
  by (auto simp: Request_def lookup0_def Let_def)

theorem Request_rejects_witness:
  "map_of (local exStale) ''../escape'' = None \<and>
   Request exDisk exStale ''peer'' ''../escape'' 0 6 [] = Inl ErrNoSuchFile \<and>
   map_of (local exSuppressed) ''a'' = Some exInvalidA \<and> map_of (global exSuppressed) ''a'' \<noteq> None \<and>
   Flags exInvalidA AND FlagInvalid \<noteq> 0 \<and>
   Request exDisk exSuppressed ''peer'' ''a'' 0 6 [] = Inl ErrInvalid \<and>
   Request exDisk exStale ''peer'' ''a'' 0 6 [] = Inr [102, 111, 111, 98, 97, 114]"
proof -
  have h1: "map_of (local exStale) ''../escape'' = None" by (simp add: ex_defs)
  have h2: "map_of (local exSuppressed) ''a'' = Some exInvalidA \<and>
    map_of (global exSuppressed) ''a'' \<noteq> None \<and> Flags exInvalidA AND FlagInvalid \<noteq> 0"
    by (simp add: exSuppressed_def exInvalidA_def ex_defs FlagInvalid_def)
  have h3: "Request exDisk exStale ''peer'' ''a'' 0 6 [] = Inr [102, 111, 111, 98, 97, 114]"
    by (simp add: Request_def exDisk_def ex_defs lookup0_def FlagInvalid_def Let_def)
  from Request_rejects[where m = exStale and name = "''../escape''" and readAt = exDisk
         and nodeID = "''peer''" and offset = 0 and size' = 6 and hash = "[]"]
       Request_rejects[where m = exSuppressed and name = "''a''" and lf = exInvalidA
         and readAt = exDisk and nodeID = "''peer''" and offset = 0 and size' = 6 and hash = "[]"]
       h1 h2 h3
  show ?thesis by blast
qed

section \<open>Receiving an index\<close>

lemma main_remote_recompute [simp]:
  "main_remote (main_recomputeGlobal now m) = main_remote m"
  "main_remote (main_recomputeNeed m) = main_remote m"
  by (simp_all add: main_recomputeGlobal_def main_recomputeNeed_def Let_def)

lemma main_index_fold:
  "fold (main_indexStep d) fs r =
     fold (\<lambda>f l. AList.update (mfi_Name f) (main_fileFromFileInfo f) l)
       (filter (\<lambda>f. \<not> (mfi_Flags f AND FlagDeleted \<noteq> 0 \<and> \<not> d)) fs) r"
  by (induction fs arbitrary: r) (auto simp: main_indexStep_def)

lemma fold_update_distinct:
  "distinct (map key fs) \<Longrightarrow> key ` set fs \<inter> fst ` set nl = {} \<Longrightarrow>
   fold (\<lambda>f l. AList.update (key f) (val f) l) fs nl = nl @ map (\<lambda>f. (key f, val f)) fs"
proof (induction fs arbitrary: nl)
  case Nil
  then show ?case by simp
next
  case (Cons f fs)
  have notin: "key f \<notin> fst ` set nl" using Cons.prems by auto
  have upd: "AList.update (key f) (val f) nl = nl @ [(key f, val f)]"
    using notin by (induction nl) auto
  have "fold (\<lambda>f l. AList.update (key f) (val f) l) fs (nl @ [(key f, val f)])
        = (nl @ [(key f, val f)]) @ map (\<lambda>f. (key f, val f)) fs"
    using Cons.prems by (intro Cons.IH) (auto simp: image_iff)
  then show ?case using upd by simp
qed

text \<open>
  C7 (as amended). \<open>Index(peer, files)\<close> replaces \<open>remote[peer]\<close> wholesale with a
  map that holds, for every name that occurs in \<open>files\<close>, the conversion of the last
  element of that name, and nothing else; the other peers keep their maps; then it
  recomputes \<open>global\<close> and \<open>need\<close>. When the names in \<open>files\<close> are distinct, the
  map has exactly one entry per element, in the order of the list. The \<open>Index\<close> of
  package \<open>main\<close> does the same, all of it, with the elements that it keeps: it
  drops the elements with the DELETED flag, unless deletion is enabled.
\<close>

theorem Index_replaces_remote:
  "Index now nodeID fs m =
     recomputeNeed (recomputeGlobal now (m\<lparr>remote := AList.update nodeID (indexMap fs) (remote m)\<rparr>)) \<and>
   map_of (remote (Index now nodeID fs m)) nodeID = Some (indexMap fs) \<and>
   (\<forall>q. q \<noteq> nodeID \<longrightarrow> map_of (remote (Index now nodeID fs m)) q = map_of (remote m) q) \<and>
   (\<forall>n. map_of (indexMap fs) n = map_of (rev (map (\<lambda>f. (fi_Name f, fileFromFileInfo f)) fs)) n) \<and>
   (distinct (map fi_Name fs) \<longrightarrow> indexMap fs = map (\<lambda>f. (fi_Name f, fileFromFileInfo f)) fs) \<and>
   main_Index optsDelete now nodeID gs mm =
     main_recomputeNeed (main_recomputeGlobal now
       (mm\<lparr>main_remote := AList.update nodeID (fold (main_indexStep optsDelete) gs [])
             (main_remote mm)\<rparr>)) \<and>
   map_of (main_remote (main_Index optsDelete now nodeID gs mm)) nodeID =
     Some (fold (main_indexStep optsDelete) gs []) \<and>
   (\<forall>q. q \<noteq> nodeID \<longrightarrow>
      map_of (main_remote (main_Index optsDelete now nodeID gs mm)) q = map_of (main_remote mm) q) \<and>
   (\<forall>n. map_of (fold (main_indexStep optsDelete) gs []) n =
        map_of (rev (map (\<lambda>f. (mfi_Name f, main_fileFromFileInfo f))
          (filter (\<lambda>f. \<not> (mfi_Flags f AND FlagDeleted \<noteq> 0 \<and> \<not> optsDelete)) gs))) n) \<and>
   (distinct (map mfi_Name (filter (\<lambda>f. \<not> (mfi_Flags f AND FlagDeleted \<noteq> 0 \<and> \<not> optsDelete)) gs)) \<longrightarrow>
      fold (main_indexStep optsDelete) gs [] =
        map (\<lambda>f. (mfi_Name f, main_fileFromFileInfo f))
          (filter (\<lambda>f. \<not> (mfi_Flags f AND FlagDeleted \<noteq> 0 \<and> \<not> optsDelete)) gs))"
proof -
  let ?keep = "\<lambda>f. \<not> (mfi_Flags f AND FlagDeleted \<noteq> 0 \<and> \<not> optsDelete)"
  have a: "\<And>n. map_of (indexMap fs) n = map_of (rev (map (\<lambda>f. (fi_Name f, fileFromFileInfo f)) fs)) n"
    using fold_update_lookup[of fi_Name fileFromFileInfo fs "[]"]
    by (simp add: indexMap_def split: option.splits)
  have b: "distinct (map fi_Name fs) \<Longrightarrow> indexMap fs = map (\<lambda>f. (fi_Name f, fileFromFileInfo f)) fs"
    using fold_update_distinct[of fi_Name fs "[]" fileFromFileInfo] by (simp add: indexMap_def)
  have c: "\<And>n. map_of (fold (main_indexStep optsDelete) gs []) n =
        map_of (rev (map (\<lambda>f. (mfi_Name f, main_fileFromFileInfo f)) (filter ?keep gs))) n"
    unfolding main_index_fold
    using fold_update_lookup[of mfi_Name main_fileFromFileInfo _ "[]"]
    by (simp split: option.splits)
  have d: "distinct (map mfi_Name (filter ?keep gs)) \<Longrightarrow>
      fold (main_indexStep optsDelete) gs [] =
        map (\<lambda>f. (mfi_Name f, main_fileFromFileInfo f)) (filter ?keep gs)"
    unfolding main_index_fold
    using fold_update_distinct[of mfi_Name "filter ?keep gs" "[]" main_fileFromFileInfo] by simp
  show ?thesis using a b c d
    by (simp add: Index_def main_Index_def update_conv')
qed

theorem Index_replaces_remote_witness:
  "distinct (map fi_Name [fileInfoFromFile exLocalA, fileInfoFromFile exFileB]) \<and>
   ''p'' \<noteq> ''q'' \<and>
   map_of (remote (Index 1000000000 ''p'' [fileInfoFromFile exLocalA, fileInfoFromFile exFileB] exStale)) ''p''
     = Some [(''a'', exLocalA), (''b'', exFileB)] \<and>
   map_of (remote (Index 1000000000 ''q'' [fileInfoFromFile exFileB] exStale)) ''p''
     = Some [(''a'', exRemoteA)] \<and>
   distinct (map mfi_Name
     (filter (\<lambda>f. \<not> (mfi_Flags f AND FlagDeleted \<noteq> 0 \<and> \<not> False)) [exMainGone, exMainKept])) \<and>
   map_of (main_remote (main_Index False 1000000000 ''q'' [exMainGone, exMainKept] exMainPeered)) ''q''
     = Some [(''b'', main_fileFromFileInfo exMainKept)] \<and>
   map_of (main_remote (main_Index False 1000000000 ''q'' [exMainGone, exMainKept] exMainPeered)) ''p''
     = Some [(''b'', main_fileFromFileInfo exMainKept)]"
proof -
  let ?keep = "\<lambda>f. \<not> (mfi_Flags f AND FlagDeleted \<noteq> 0 \<and> \<not> False)"
  have h1: "distinct (map fi_Name [fileInfoFromFile exLocalA, fileInfoFromFile exFileB])"
    by (simp add: fileInfoFromFile_def exFileB_def ex_defs)
  have h2: "''p'' \<noteq> ''q''" by simp
  have h3: "map (\<lambda>f. (fi_Name f, fileFromFileInfo f)) [fileInfoFromFile exLocalA, fileInfoFromFile exFileB]
     = [(''a'', exLocalA), (''b'', exFileB)]"
    by (simp add: exFileB_def ex_defs model_defs)
  have h4: "map_of (remote exStale) ''p'' = Some [(''a'', exRemoteA)]" by (simp add: ex_defs)
  have h5: "filter ?keep [exMainGone, exMainKept] = [exMainKept]"
    by (simp add: exMainGone_def exMainKept_def FlagDeleted_def)
  have h6: "distinct (map mfi_Name (filter ?keep [exMainGone, exMainKept]))"
    by (simp only: h5) simp
  have h7: "map_of (main_remote exMainPeered) ''p'' = Some [(''b'', main_fileFromFileInfo exMainKept)]"
    by (simp add: exMainPeered_def)
  note p = Index_replaces_remote[of 1000000000 "''p''"
      "[fileInfoFromFile exLocalA, fileInfoFromFile exFileB]" exStale]
  note q = Index_replaces_remote[of 1000000000 "''q''" "[fileInfoFromFile exFileB]" exStale
      False "[exMainGone, exMainKept]" exMainPeered]
  have a: "map_of (remote (Index 1000000000 ''p''
      [fileInfoFromFile exLocalA, fileInfoFromFile exFileB] exStale)) ''p''
     = Some (indexMap [fileInfoFromFile exLocalA, fileInfoFromFile exFileB])"
    by (rule p[THEN conjunct2, THEN conjunct1])
  have b: "indexMap [fileInfoFromFile exLocalA, fileInfoFromFile exFileB]
     = map (\<lambda>f. (fi_Name f, fileFromFileInfo f)) [fileInfoFromFile exLocalA, fileInfoFromFile exFileB]"
    by (rule p[THEN conjunct2, THEN conjunct2, THEN conjunct2, THEN conjunct2, THEN conjunct1,
          THEN mp, OF h1])
  have c: "map_of (remote (Index 1000000000 ''q'' [fileInfoFromFile exFileB] exStale)) ''p''
     = map_of (remote exStale) ''p''"
    by (rule q[THEN conjunct2, THEN conjunct2, THEN conjunct1, THEN spec, THEN mp, OF h2])
  note qm = q[THEN conjunct2, THEN conjunct2, THEN conjunct2, THEN conjunct2, THEN conjunct2,
      THEN conjunct2]
  have d: "map_of (main_remote (main_Index False 1000000000 ''q'' [exMainGone, exMainKept] exMainPeered)) ''q''
     = Some (fold (main_indexStep False) [exMainGone, exMainKept] [])"
    by (rule qm[THEN conjunct1])
  have e: "map_of (main_remote (main_Index False 1000000000 ''q'' [exMainGone, exMainKept] exMainPeered)) ''p''
     = map_of (main_remote exMainPeered) ''p''"
    by (rule qm[THEN conjunct2, THEN conjunct1, THEN spec, THEN mp, OF h2])
  have f: "fold (main_indexStep False) [exMainGone, exMainKept] []
     = map (\<lambda>f. (mfi_Name f, main_fileFromFileInfo f)) (filter ?keep [exMainGone, exMainKept])"
    by (rule qm[THEN conjunct2, THEN conjunct2, THEN conjunct2, THEN mp, OF h6])
  have g: "map (\<lambda>f. (mfi_Name f, main_fileFromFileInfo f)) (filter ?keep [exMainGone, exMainKept])
     = [(''b'', main_fileFromFileInfo exMainKept)]"
    by (simp only: h5) (simp add: exMainKept_def)
  have c3: "map_of (remote (Index 1000000000 ''p''
      [fileInfoFromFile exLocalA, fileInfoFromFile exFileB] exStale)) ''p''
     = Some [(''a'', exLocalA), (''b'', exFileB)]"
    by (simp only: a b h3)
  have c4: "map_of (remote (Index 1000000000 ''q'' [fileInfoFromFile exFileB] exStale)) ''p''
     = Some [(''a'', exRemoteA)]"
    by (simp only: c h4)
  have c6: "map_of (main_remote (main_Index False 1000000000 ''q'' [exMainGone, exMainKept] exMainPeered)) ''q''
     = Some [(''b'', main_fileFromFileInfo exMainKept)]"
    by (simp only: d f g)
  have c7: "map_of (main_remote (main_Index False 1000000000 ''q'' [exMainGone, exMainKept] exMainPeered)) ''p''
     = Some [(''b'', main_fileFromFileInfo exMainKept)]"
    by (simp only: e h7)
  show ?thesis
    by (intro conjI) (rule h1 h2 c3 c4 h6 c6 c7)+
qed

text \<open>
  The claim as first stated has one entry per element and no element omitted. An
  index that names \<open>a\<close> twice leaves one entry, that of the second element; and in
  package \<open>main\<close>, with deletion disabled, an index of one deleted file leaves an
  empty map.
\<close>

theorem Index_omits_counterexample:
  "length exDupIndex = 2 \<and>
   map_of (remote (Index 1000000000 ''p'' exDupIndex (NewModel ''repo''))) ''p'' = Some [(''a'', exLocalA)] \<and>
   fileFromFileInfo (fileInfoFromFile exRemoteA) \<noteq> exLocalA \<and>
   map_of (main_remote (main_Index False 1000000000 ''p'' [exMainGone] NewMainModel)) ''p'' = Some []"
  by (simp add: exDupIndex_def exMainGone_def NewMainModel_def ex_defs model_defs
      main_Index_def main_indexStep_def main_recomputeGlobal_def main_recomputeNeed_def)

end
